theory Spec2Isabelle
  imports Main "HOL-Library.Word" "HOL-Library.Sublist"
begin

section \<open>Strings and the Go library functions the package calls\<close>

text \<open>
  A Go string is a sequence of bytes, here a \<^typ>\<open>string\<close> (a list of 8-bit characters).
  The center dot of the source, U+00B7, is the two bytes C2 B7 of its UTF-8 encoding.
  The functions of package \<^verbatim>\<open>strings\<close> are written out as the Go documentation
  describes them: \<^verbatim>\<open>Index\<close> and \<^verbatim>\<open>LastIndex\<close> give the byte offset of the first and of
  the last occurrence of a substring, or \<open>-1\<close>; \<^verbatim>\<open>Replace\<close> with count \<open>-1\<close> replaces
  every non-overlapping occurrence from the left (the source passes a non-empty old
  string, and an empty one is left alone here); \<^verbatim>\<open>Split\<close> cuts at every separator and
  always returns at least one piece.
\<close>

type_synonym uintptr = "64 word"

definition centerDot :: string where
  "centerDot = [CHR 0xC2, CHR 0xB7]"

definition newline :: string where
  "newline = [CHR 0x0A]"

fun Index :: "string \<Rightarrow> string \<Rightarrow> int" where
  "Index [] substr = (if substr = [] then 0 else -1)"
| "Index (c # s) substr =
     (if prefix substr (c # s) then 0
      else (let i = Index s substr in if i < 0 then -1 else i + 1))"

fun LastIndex :: "string \<Rightarrow> string \<Rightarrow> int" where
  "LastIndex [] substr = (if substr = [] then 0 else -1)"
| "LastIndex (c # s) substr =
     (let i = LastIndex s substr in
      if 0 \<le> i then i + 1
      else if prefix substr (c # s) then 0 else -1)"

function Replace :: "string \<Rightarrow> string \<Rightarrow> string \<Rightarrow> string" where
  "Replace s old new =
     (if s = [] \<or> old = [] then s
      else if prefix old s then new @ Replace (drop (length old) s) old new
      else hd s # Replace (tl s) old new)"
  by pat_completeness auto
termination
  by (relation "measure (\<lambda>(s, old, new). length s)") auto

function Split :: "string \<Rightarrow> char \<Rightarrow> string list" where
  "Split s sep =
     (case dropWhile (\<lambda>c. c \<noteq> sep) s of
        [] \<Rightarrow> [s]
      | _ # rest \<Rightarrow> takeWhile (\<lambda>c. c \<noteq> sep) s # Split rest sep)"
  by pat_completeness auto
termination
proof (relation "measure (\<lambda>(s, sep). length s)")
  show "wf (measure (\<lambda>(s, sep). length s))"
    by simp
next
  fix s :: string and sep :: char and x rest
  assume "dropWhile (\<lambda>c. c \<noteq> sep) s = x # rest"
  moreover have "length (dropWhile (\<lambda>c. c \<noteq> sep) s) \<le> length s"
    by (rule length_dropWhile_le)
  ultimately show "((rest, sep), (s, sep)) \<in> measure (\<lambda>(s, sep). length s)"
    by simp
qed

declare Replace.simps [simp del] Split.simps [simp del]

text \<open>The decimal text that \<^verbatim>\<open>%d\<close> prints for an \<^verbatim>\<open>int\<close>.\<close>

function decimal :: "nat \<Rightarrow> string" where
  "decimal n = (if n < 10 then [char_of (48 + n)] else decimal (n div 10) @ [char_of (48 + n mod 10)])"
  by pat_completeness auto
termination
  by (relation "measure (\<lambda>n. n)") auto

declare decimal.simps [simp del]

definition fmt_d :: "int \<Rightarrow> string" where
  "fmt_d i = (if i < 0 then CHR ''-'' # decimal (nat (- i)) else decimal (nat i))"

section \<open>The frame resolver (stackframe.go)\<close>

text \<open>
  The symbol table of the Go runtime is outside the package. A \<^verbatim>\<open>*runtime.Func\<close> is a
  record of what the package reads from it: the qualified name and the file and line of
  a program counter. \<^verbatim>\<open>runtime.FuncForPC\<close> is a parameter \<open>FuncForPC\<close> of the model, a
  lookup that answers \<open>None\<close> for Go's \<^verbatim>\<open>nil\<close>. Each function that can reach the lookup
  also returns the program counters it handed to \<^verbatim>\<open>runtime.FuncForPC\<close>, in call order,
  so that a lookup that was or was not performed shows in the result.
\<close>

record runtime_Func =
  func_Name :: string
  func_FileLine :: "uintptr \<Rightarrow> string \<times> int"

type_synonym symtab = "uintptr \<Rightarrow> runtime_Func option"

record StackFrame =
  Caller :: uintptr
  File :: string
  LineNumber :: int
  FunctionName :: string
  Package :: string

definition Func :: "symtab \<Rightarrow> StackFrame \<Rightarrow> runtime_Func option \<times> uintptr list" where
  "Func FuncForPC frame =
     (if Caller frame = 0 then (None, [])
      else (FuncForPC (Caller frame), [Caller frame]))"

definition packageAndName :: "runtime_Func \<Rightarrow> string \<times> string" where
  "packageAndName fn =
     (let name = func_Name fn;
          pkg = [];
          lastslash = LastIndex name ''/'';
          (pkg, name) =
            (if 0 \<le> lastslash
             then (pkg @ take (nat lastslash) name @ ''/'', drop (nat (lastslash + 1)) name)
             else (pkg, name));
          period = Index name ''.'';
          (pkg, name) =
            (if 0 \<le> period
             then (pkg @ take (nat period) name, drop (nat (period + 1)) name)
             else (pkg, name));
          name = Replace name centerDot ''.''
      in (pkg, name))"

text \<open>
  \<^verbatim>\<open>NewStackFrame\<close> calls \<^verbatim>\<open>frame.Func()\<close> three times when the first call finds a
  function. The lookup is a function of the address, so the three calls return the same
  pointer; the model binds it once and records the three lookups.
\<close>

definition NewStackFrame :: "symtab \<Rightarrow> uintptr \<Rightarrow> StackFrame \<times> uintptr list" where
  "NewStackFrame FuncForPC caller =
     (let frame = \<lparr>Caller = caller, File = [], LineNumber = 0, FunctionName = [], Package = []\<rparr>
      in case Func FuncForPC frame of
           (None, looked) \<Rightarrow> (frame, looked)
         | (Some fn, looked) \<Rightarrow>
             (let (pkg, name) = packageAndName fn;
                  (file, line) = func_FileLine fn (caller - 1)
              in (frame\<lparr>Package := pkg, FunctionName := name, File := file, LineNumber := line\<rparr>,
                  looked @ looked @ looked)))"

text \<open>The two loops of \<^verbatim>\<open>RelativeFilePath\<close>: counting up to the first folder named
  \<^verbatim>\<open>src\<close>, and writing a slash and a folder for each folder after it.\<close>

fun count_folders :: "string list \<Rightarrow> nat \<Rightarrow> nat" where
  "count_folders [] count = count"
| "count_folders (folder # folders) count =
     (if folder = ''src'' then count else count_folders folders (count + 1))"

fun write_folders :: "string list \<Rightarrow> string \<Rightarrow> string" where
  "write_folders [] buf = buf"
| "write_folders (folder # folders) buf = write_folders folders (buf @ ''/'' @ folder)"

definition RelativeFilePath :: "string \<Rightarrow> string" where
  "RelativeFilePath file =
     (let folders = Split file CHR ''/'';
          count = count_folders folders 0
      in if length folders \<le> count then file
         else write_folders (drop (count + 1) folders) [])"

definition String :: "StackFrame \<Rightarrow> string" where
  "String frame =
     RelativeFilePath (File frame) @ '': '' @ FunctionName frame @ '': line '' @ fmt_d (LineNumber frame)"

section \<open>Stackable errors\<close>

text \<open>
  A value of Go's interface type \<^verbatim>\<open>error\<close> is \<^verbatim>\<open>nil\<close>, a pointer to a
  \<^verbatim>\<open>StackableError\<close>, or a value of a type from outside the package. For the last kind
  the model keeps what the package can observe: a number that stands for the interface
  value as \<^verbatim>\<open>==\<close> compares it (dynamic type and pointer, or comparable value) and the
  text its \<^verbatim>\<open>Error()\<close> returns. \<open>ErrorString\<close> is the pointer that \<^verbatim>\<open>fmt.Errorf\<close>
  allocates. Equality of two \<open>error\<close> values is Go's \<^verbatim>\<open>==\<close> on interface values of
  comparable dynamic type.

  The \<^verbatim>\<open>StackableError\<close> objects live in a store, so that two pointers to one object
  are one address: the store is the list of the objects allocated so far, an address is
  an index into it, and an allocation appends. Go has no pointer to a missing object
  other than \<^verbatim>\<open>nil\<close>: an address beyond the store stands for the \<^verbatim>\<open>nil\<close> pointer, and
  reading a field through it panics. Such an address would name an object after a later
  allocation, which \<^verbatim>\<open>nil\<close> never does; this only adds runs to the model, and what is
  proved for all runs holds for those of the program. Statements that follow a pointer
  over several calls are about addresses inside the store. A \<^verbatim>\<open>nil\<close> slice of frames is
  \<open>None\<close>, which differs from the empty slice that \<^verbatim>\<open>make\<close> returns for length zero.
\<close>

type_synonym addr = nat

datatype error = ErrNil | Foreign nat string | ErrorString nat string | Stackable addr

text \<open>An argument of type \<^verbatim>\<open>interface{}\<close>: an error, or any other value, of which the
  package only uses the text that \<^verbatim>\<open>%v\<close> prints. \<open>VErr ErrNil\<close> is the \<^verbatim>\<open>nil\<close>
  interface.\<close>

datatype val = VErr error | VOther string

datatype panic = NilDereference | MakeSliceLenOutOfRange

record StackableError =
  Err :: error
  Prefixes :: "string list"
  stack :: "uintptr list"
  frames :: "StackFrame list option"

record state =
  heap :: "StackableError list"
  errorStrings :: nat

subsection \<open>Error and Callers\<close>

fun prefix_loop :: "string list \<Rightarrow> string \<Rightarrow> string" where
  "prefix_loop [] msg = msg"
| "prefix_loop (pfx # pfxs) msg = prefix_loop pfxs (pfx @ '': '' @ msg)"

text \<open>
  \<open>error_Error s e\<close> is the interface call \<^verbatim>\<open>e.Error()\<close>; its last case is the body of
  \<^verbatim>\<open>(*StackableError).Error\<close>, which calls \<^verbatim>\<open>err.Err.Error()\<close> in turn. A client can
  store any error in the exported field \<^verbatim>\<open>Err\<close>, also the object itself, so the call
  need not return: \<open>None\<close> is the call that never returns.
\<close>

partial_function (option) error_Error :: "state \<Rightarrow> error \<Rightarrow> (panic + string) option" where
  "error_Error s e =
     (case e of
        ErrNil \<Rightarrow> Some (Inl NilDereference)
      | Foreign i txt \<Rightarrow> Some (Inr txt)
      | ErrorString i txt \<Rightarrow> Some (Inr txt)
      | Stackable p \<Rightarrow>
          (if length (heap s) \<le> p then Some (Inl NilDereference)
           else Option.bind (error_Error s (Err (heap s ! p))) (\<lambda>r.
             case r of
               Inl x \<Rightarrow> Some (Inl x)
             | Inr msg \<Rightarrow> Some (Inr (prefix_loop (Prefixes (heap s ! p)) msg)))))"

declare error_Error.simps [code]

definition Error :: "state \<Rightarrow> addr \<Rightarrow> (panic + string) option" where
  "Error s p = error_Error s (Stackable p)"

definition Callers :: "state \<Rightarrow> addr \<Rightarrow> panic + uintptr list" where
  "Callers s p = (if length (heap s) \<le> p then Inl NilDereference else Inr (stack (heap s ! p)))"

subsection \<open>Wrap, WrapPrefix and newStackableError\<close>

text \<open>
  \<^verbatim>\<open>runtime.Callers(skip, pc)\<close> writes the return program counters of the calling
  goroutine's stack into \<^verbatim>\<open>pc\<close>, leaving out the first \<open>skip\<close> of them, and returns how
  many it wrote. The stack it walks is the parameter \<open>goroutine\<close>, innermost first, its
  entry 0 being \<^verbatim>\<open>runtime.Callers\<close> itself. \<open>MaxStackDepth\<close> is the value of the package
  variable at the call; \<^verbatim>\<open>make\<close> panics on a negative length.
\<close>

definition runtime_Callers :: "nat \<Rightarrow> uintptr list \<Rightarrow> uintptr list \<Rightarrow> nat \<times> uintptr list" where
  "runtime_Callers skip pc goroutine =
     (let written = take (length pc) (drop skip goroutine)
      in (length written, written @ drop (length written) pc))"

definition newStackableError ::
  "int \<Rightarrow> uintptr list \<Rightarrow> state \<Rightarrow> error \<Rightarrow> nat \<Rightarrow> panic + addr \<times> state" where
  "newStackableError MaxStackDepth goroutine s e skip =
     (if MaxStackDepth < 0 then Inl MakeSliceLenOutOfRange
      else (let prefixes = [];
                stack0 = replicate (nat MaxStackDepth) 0;
                (len, stack1) = runtime_Callers (2 + skip) stack0 goroutine
            in Inr (length (heap s),
                    s\<lparr>heap := heap s @
                      [\<lparr>Err = e, Prefixes = prefixes, stack = take len stack1, frames = None\<rparr>]\<rparr>)))"

definition fmt_Errorf_v :: "state \<Rightarrow> string \<Rightarrow> error \<times> state" where
  "fmt_Errorf_v s txt = (ErrorString (errorStrings s) txt, s\<lparr>errorStrings := errorStrings s + 1\<rparr>)"

fun Wrap :: "int \<Rightarrow> uintptr list \<Rightarrow> state \<Rightarrow> val \<Rightarrow> panic + addr \<times> state" where
  "Wrap MaxStackDepth goroutine s (VErr (Stackable p)) = Inr (p, s)"
| "Wrap MaxStackDepth goroutine s (VErr ErrNil) =
     (let (err, s1) = fmt_Errorf_v s ''<nil>''
      in newStackableError MaxStackDepth goroutine s1 err 1)"
| "Wrap MaxStackDepth goroutine s (VErr e) = newStackableError MaxStackDepth goroutine s e 1"
| "Wrap MaxStackDepth goroutine s (VOther txt) =
     (let (err, s1) = fmt_Errorf_v s txt
      in newStackableError MaxStackDepth goroutine s1 err 1)"

definition WrapPrefix :: "int \<Rightarrow> uintptr list \<Rightarrow> state \<Rightarrow> val \<Rightarrow> string \<Rightarrow> panic + addr \<times> state" where
  "WrapPrefix MaxStackDepth goroutine s e pfx =
     (case Wrap MaxStackDepth goroutine s e of
        Inl x \<Rightarrow> Inl x
      | Inr (err, s1) \<Rightarrow>
          (if length (heap s1) \<le> err then Inl NilDereference
           else Inr (err, s1\<lparr>heap := (heap s1)
                  [err := (heap s1 ! err)\<lparr>Prefixes := Prefixes (heap s1 ! err) @ [pfx]\<rparr>]\<rparr>)))"

subsection \<open>Is\<close>

partial_function (option) Is :: "state \<Rightarrow> error \<Rightarrow> error \<Rightarrow> (panic + bool) option" where
  "Is s e original =
     (if e = original then Some (Inr True)
      else case e of
        Stackable p \<Rightarrow>
          (if length (heap s) \<le> p then Some (Inl NilDereference)
           else Is s (Err (heap s ! p)) original)
      | _ \<Rightarrow>
         (case original of
            Stackable q \<Rightarrow>
              (if length (heap s) \<le> q then Some (Inl NilDereference)
               else Is s e (Err (heap s ! q)))
          | _ \<Rightarrow> Some (Inr False)))"

declare Is.simps [code]

subsection \<open>StackFrames, Stack and StackTrace\<close>

text \<open>The loop of \<^verbatim>\<open>StackFrames\<close> stores the frame of the \<open>i\<close>-th address at index \<open>i\<close>
  of the slice that \<^verbatim>\<open>make\<close> has filled with zero frames; \<open>looked\<close> collects the symbol
  lookups.\<close>

definition zeroFrame :: StackFrame where
  "zeroFrame = \<lparr>Caller = 0, File = [], LineNumber = 0, FunctionName = [], Package = []\<rparr>"

fun frames_loop ::
  "symtab \<Rightarrow> uintptr list \<Rightarrow> nat \<Rightarrow> StackFrame list \<Rightarrow> uintptr list \<Rightarrow> StackFrame list \<times> uintptr list" where
  "frames_loop FuncForPC [] i fs looked = (fs, looked)"
| "frames_loop FuncForPC (pc # pcs) i fs looked =
     (let (frame, l) = NewStackFrame FuncForPC pc
      in frames_loop FuncForPC pcs (i + 1) (fs[i := frame]) (looked @ l))"

definition StackFrames ::
  "symtab \<Rightarrow> state \<Rightarrow> addr \<Rightarrow> panic + StackFrame list \<times> state \<times> uintptr list" where
  "StackFrames FuncForPC s p =
     (if length (heap s) \<le> p then Inl NilDereference
      else (let err = heap s ! p in
        case frames err of
          Some fs \<Rightarrow> Inr (fs, s, [])
        | None \<Rightarrow>
            (let (fs, looked) =
                   frames_loop FuncForPC (stack err) 0 (replicate (length (stack err)) zeroFrame) []
             in Inr (fs, s\<lparr>heap := (heap s)[p := err\<lparr>frames := Some fs\<rparr>]\<rparr>, looked))))"

fun stack_loop :: "StackFrame list \<Rightarrow> string \<Rightarrow> string" where
  "stack_loop [] buf = buf"
| "stack_loop (frame # fs) buf = stack_loop fs ((buf @ String frame) @ newline)"

definition Stack :: "symtab \<Rightarrow> state \<Rightarrow> addr \<Rightarrow> panic + string \<times> state \<times> uintptr list" where
  "Stack FuncForPC s p =
     (case StackFrames FuncForPC s p of
        Inl x \<Rightarrow> Inl x
      | Inr (fs, s1, looked) \<Rightarrow> Inr (stack_loop fs [], s1, looked))"

definition StackTrace ::
  "symtab \<Rightarrow> state \<Rightarrow> addr \<Rightarrow> (panic + string \<times> state \<times> uintptr list) option" where
  "StackTrace FuncForPC s p =
     (case Error s p of
        None \<Rightarrow> None
      | Some (Inl x) \<Rightarrow> Some (Inl x)
      | Some (Inr msg) \<Rightarrow>
          (case Stack FuncForPC s p of
             Inl x \<Rightarrow> Some (Inl x)
           | Inr (txt, s1, looked) \<Rightarrow> Some (Inr (''ERROR: '' @ msg @ newline @ txt, s1, looked))))"

subsection \<open>Cause chains and calls of the exported functions\<close>

text \<open>
  \<open>chain_ends s e r\<close>: following the \<^verbatim>\<open>Err\<close> fields from \<open>e\<close> through live
  \<^verbatim>\<open>StackableError\<close> objects ends at \<open>r\<close>, which is not a \<^verbatim>\<open>StackableError\<close>. It fails for
  a chain that runs into a \<^verbatim>\<open>nil\<close> pointer or into a cycle.
\<close>

inductive chain_ends :: "state \<Rightarrow> error \<Rightarrow> error \<Rightarrow> bool" for s :: state where
  ends_nil: "chain_ends s ErrNil ErrNil"
| ends_foreign: "chain_ends s (Foreign i txt) (Foreign i txt)"
| ends_errorString: "chain_ends s (ErrorString i txt) (ErrorString i txt)"
| ends_cause: "p < length (heap s) \<Longrightarrow> chain_ends s (Err (heap s ! p)) r \<Longrightarrow> chain_ends s (Stackable p) r"

text \<open>One step along a chain of causes.\<close>

definition cause :: "state \<Rightarrow> error \<Rightarrow> error \<Rightarrow> bool" where
  "cause s a b = (\<exists>q. a = Stackable q \<and> q < length (heap s) \<and> b = Err (heap s ! q))"

text \<open>
  The relation that the specification gives for \<^verbatim>\<open>Is\<close>, in its words: \<open>a\<close> and \<open>b\<close> are
  the identical object, or \<open>a\<close> is a \<^verbatim>\<open>StackableError\<close> whose cause chain-equals \<open>b\<close>, or
  \<open>b\<close> is a \<^verbatim>\<open>StackableError\<close> whose cause chain-equals \<open>a\<close>.
\<close>

inductive spec_chain_equal :: "state \<Rightarrow> error \<Rightarrow> error \<Rightarrow> bool" for s :: state where
  identical: "spec_chain_equal s a a"
| cause_left: "p < length (heap s) \<Longrightarrow> spec_chain_equal s (Err (heap s ! p)) b \<Longrightarrow>
     spec_chain_equal s (Stackable p) b"
| cause_right: "q < length (heap s) \<Longrightarrow> spec_chain_equal s a (Err (heap s ! q)) \<Longrightarrow>
     spec_chain_equal s a (Stackable q)"

text \<open>No object of the store has a \<^verbatim>\<open>StackableError\<close> as its cause.\<close>

definition flat :: "state \<Rightarrow> bool" where
  "flat s = list_all (\<lambda>err. case Err err of Stackable p \<Rightarrow> False | _ \<Rightarrow> True) (heap s)"

text \<open>
  One returning call of an exported function that can change the store, with any
  arguments, any value of \<^verbatim>\<open>MaxStackDepth\<close> and any symbol table. \<^verbatim>\<open>Error\<close>, \<^verbatim>\<open>Callers\<close>
  and \<^verbatim>\<open>Is\<close> only read.
\<close>

inductive call :: "state \<Rightarrow> state \<Rightarrow> bool" where
  call_Wrap: "Wrap MaxStackDepth goroutine s e = Inr (p, s') \<Longrightarrow> call s s'"
| call_WrapPrefix: "WrapPrefix MaxStackDepth goroutine s e pfx = Inr (p, s') \<Longrightarrow> call s s'"
| call_StackFrames: "StackFrames FuncForPC s p = Inr (fs, s', looked) \<Longrightarrow> call s s'"
| call_Stack: "Stack FuncForPC s p = Inr (txt, s', looked) \<Longrightarrow> call s s'"
| call_StackTrace: "StackTrace FuncForPC s p = Some (Inr (txt, s', looked)) \<Longrightarrow> call s s'"

section \<open>Properties of the frame resolver\<close>

subsection \<open>Index, LastIndex, Replace and Split\<close>

lemma LastIndex_absent: "c \<notin> set s \<Longrightarrow> LastIndex s [c] = -1"
  by (induction s) (auto simp: Let_def)

lemma LastIndex_last: "c \<notin> set b \<Longrightarrow> LastIndex (a @ c # b) [c] = int (length a)"
  by (induction a) (auto simp: Let_def LastIndex_absent)

lemma Index_absent: "c \<notin> set s \<Longrightarrow> Index s [c] = -1"
  by (induction s) (auto simp: Let_def)

lemma Index_first: "c \<notin> set a \<Longrightarrow> Index (a @ c # b) [c] = int (length a)"
  by (induction a) (auto simp: Let_def)

lemma nat_int_Suc: "nat (int n + 1) = Suc n"
  by simp

lemma Replace_Nil: "Replace [] old new = []"
  by (subst Replace.simps) simp

lemma Replace_centerDot:
  "Replace (centerDot @ s) centerDot ''.'' = ''.'' @ Replace s centerDot ''.''"
  by (subst Replace.simps) (simp add: centerDot_def)

lemma Replace_other:
  "\<not> prefix centerDot (c # s) \<Longrightarrow> Replace (c # s) centerDot ''.'' = c # Replace s centerDot ''.''"
  by (subst Replace.simps) (auto simp: centerDot_def)

lemma prefix_centerDot_Cons:
  "prefix centerDot (c # xs) \<longleftrightarrow> c = CHR 0xC2 \<and> prefix [CHR 0xB7] xs"
  by (auto simp: centerDot_def)

text \<open>No center dot is left after the replacement. A copied byte B7 at the front of the
  result was at the front of the input, so a copied C2 is never followed by one.\<close>

lemma Replace_centerDot_aux:
  "\<not> sublist centerDot (Replace s centerDot ''.'') \<and>
   (prefix [CHR 0xB7] (Replace s centerDot ''.'') \<longrightarrow> prefix [CHR 0xB7] s)"
proof (induction s rule: length_induct)
  case (1 s)
  show ?case
  proof (cases s)
    case Nil
    then show ?thesis by (simp add: Replace_Nil centerDot_def)
  next
    case (Cons c s')
    show ?thesis
    proof (cases "prefix centerDot s")
      case True
      then obtain r where r: "s = centerDot @ r"
        by (auto simp: prefix_def)
      have "length r < length s"
        by (simp add: r centerDot_def)
      with 1 have "\<not> sublist centerDot (Replace r centerDot ''.'')"
        by blast
      then show ?thesis
        by (simp add: r Replace_centerDot sublist_Cons_right) (simp add: centerDot_def)
    next
      case False
      have "length s' < length s"
        by (simp add: Cons)
      with 1 have ih: "\<not> sublist centerDot (Replace s' centerDot ''.'')"
        "prefix [CHR 0xB7] (Replace s' centerDot ''.'') \<Longrightarrow> prefix [CHR 0xB7] s'"
        by blast+
      have R: "Replace (c # s') centerDot ''.'' = c # Replace s' centerDot ''.''"
        using False Replace_other[of c s'] by (simp add: Cons)
      have "\<not> prefix centerDot (c # Replace s' centerDot ''.'')"
      proof
        assume "prefix centerDot (c # Replace s' centerDot ''.'')"
        then have "c = CHR 0xC2" "prefix [CHR 0xB7] (Replace s' centerDot ''.'')"
          by (simp_all only: prefix_centerDot_Cons)
        with ih(2) have "prefix centerDot (c # s')"
          by (simp only: prefix_centerDot_Cons)
        with False Cons show False by simp
      qed
      with ih(1) show ?thesis
        by (simp add: R sublist_Cons_right Cons)
    qed
  qed
qed

lemma Replace_unchanged:
  "\<not> sublist centerDot s \<Longrightarrow> Replace s centerDot ''.'' = s"
proof (induction s)
  case Nil
  show ?case by (simp add: Replace_Nil)
next
  case (Cons c s)
  then have "\<not> prefix centerDot (c # s)" "\<not> sublist centerDot s"
    by (auto simp: sublist_Cons_right)
  with Cons.IH show ?case
    by (simp add: Replace_other)
qed

lemma Split_nonempty: "Split s sep \<noteq> []"
  by (subst Split.simps) (simp split: list.split)

text \<open>Putting the separator back after every piece but the last gives the string that
  was split.\<close>

lemma Split_pieces:
  "concat (map (\<lambda>f. f @ [sep]) (butlast (Split s sep))) @ last (Split s sep) = s"
proof (induction s sep rule: Split.induct)
  case (1 s sep)
  show ?case
  proof (cases "dropWhile (\<lambda>c. c \<noteq> sep) s")
    case Nil
    then have "Split s sep = [s]" by (subst Split.simps) (simp only: list.simps)
    then show ?thesis by simp
  next
    case (Cons x rest)
    have x: "x = sep"
      using hd_dropWhile[of "\<lambda>c. c \<noteq> sep" s] Cons by simp
    have "s = takeWhile (\<lambda>c. c \<noteq> sep) s @ dropWhile (\<lambda>c. c \<noteq> sep) s"
      by simp
    then have s: "s = takeWhile (\<lambda>c. c \<noteq> sep) s @ sep # rest"
      using Cons x by simp
    have sp: "Split s sep = takeWhile (\<lambda>c. c \<noteq> sep) s # Split rest sep"
      by (subst Split.simps) (simp add: Cons)
    from "1.IH"[OF Cons] Split_nonempty[of rest sep] show ?thesis
      unfolding sp using s by simp
  qed
qed

lemma pieces_Cons:
  "concat (map (\<lambda>f. f @ [sep]) (butlast (x # after))) @ last (x # after)
   = x @ concat (map (\<lambda>f. sep # f) after)"
  by (induction after arbitrary: x) auto

lemma pieces_split:
  "concat (map (\<lambda>f. f @ [sep]) (butlast (before @ x # after))) @ last (before @ x # after)
   = concat (map (\<lambda>f. f @ [sep]) before) @ x @ concat (map (\<lambda>f. sep # f) after)"
proof (induction before)
  case Nil
  show ?case using pieces_Cons[of sep x after] by simp
next
  case (Cons b before)
  then show ?case by simp
qed

subsection \<open>The loops of RelativeFilePath\<close>

lemma count_folders_eq:
  "count_folders folders count = count + length (takeWhile (\<lambda>f. f \<noteq> ''src'') folders)"
  by (induction folders arbitrary: count) auto

lemma write_folders_eq:
  "write_folders folders buf = buf @ concat (map (\<lambda>f. ''/'' @ f) folders)"
  by (induction folders arbitrary: buf) auto

lemma RelativeFilePath_absent:
  assumes "''src'' \<notin> set (Split file CHR ''/'')"
  shows "RelativeFilePath file = file"
proof -
  from assms have "takeWhile (\<lambda>f. f \<noteq> ''src'') (Split file CHR ''/'') = Split file CHR ''/''"
    by (auto simp: takeWhile_eq_all_conv)
  then have "count_folders (Split file CHR ''/'') 0 = length (Split file CHR ''/'')"
    unfolding count_folders_eq by (simp only: add_0)
  then show ?thesis
    by (simp add: RelativeFilePath_def Let_def)
qed

lemma RelativeFilePath_present:
  assumes "Split file CHR ''/'' = before @ ''src'' # after" "''src'' \<notin> set before"
  shows "RelativeFilePath file = concat (map (\<lambda>f. ''/'' @ f) after)"
    and "file = concat (map (\<lambda>f. f @ ''/'') before) @ ''src'' @ RelativeFilePath file"
proof -
  have tw: "takeWhile (\<lambda>f. f \<noteq> ''src'') (before @ ''src'' # after) = before"
    using assms(2) by (subst takeWhile_append2) auto
  show r: "RelativeFilePath file = concat (map (\<lambda>f. ''/'' @ f) after)"
    by (simp add: RelativeFilePath_def count_folders_eq Let_def assms(1) tw write_folders_eq)
  have "file = concat (map (\<lambda>f. f @ ''/'') before) @ ''src'' @ concat (map (\<lambda>f. CHR ''/'' # f) after)"
    using Split_pieces[where s = "file" and sep = "CHR ''/''"]
      pieces_split[where sep = "CHR ''/''" and before = before and x = "''src''" and after = after]
    by (simp add: assms(1))
  also have "concat (map (\<lambda>f. CHR ''/'' # f) after) = RelativeFilePath file"
    unfolding r by (induction after) simp_all
  finally show "file = concat (map (\<lambda>f. f @ ''/'') before) @ ''src'' @ RelativeFilePath file" .
qed

lemma Split_example_src:
  "Split ''/go/src/errgo/src/x.go'' CHR ''/'' = [[], ''go''] @ ''src'' # [''errgo'', ''src'', ''x.go'']"
  by code_simp

lemma Split_example_plain: "Split ''/usr/lib/x.go'' CHR ''/'' = [[], ''usr'', ''lib'', ''x.go'']"
  by code_simp

subsection \<open>packageAndName on a name cut at its last slash\<close>

lemma packageAndName_dot:
  assumes "dir = [] \<or> last dir = CHR ''/''" "CHR ''/'' \<notin> set short" "CHR ''.'' \<notin> set short"
    and "CHR ''/'' \<notin> set fname"
  shows "packageAndName \<lparr>func_Name = dir @ short @ ''.'' @ fname, func_FileLine = fl\<rparr>
     = (dir @ short, Replace fname centerDot ''.'')"
proof (cases "dir = []")
  case True
  have "LastIndex (short @ ''.'' @ fname) ''/'' = -1"
    using assms by (intro LastIndex_absent) auto
  moreover have "Index (short @ ''.'' @ fname) ''.'' = int (length short)"
    using assms Index_first[of "CHR ''.''" short fname] by simp
  ultimately show ?thesis
    using True by (simp add: packageAndName_def Let_def nat_int_Suc)
next
  case False
  then obtain d where d: "dir = d @ ''/''"
    using assms(1) by (metis append_butlast_last_id)
  have li: "LastIndex (dir @ short @ ''.'' @ fname) ''/'' = int (length d)"
    using assms LastIndex_last[of "CHR ''/''" "short @ ''.'' @ fname" d] by (simp add: d)
  have ix: "Index (short @ ''.'' @ fname) ''.'' = int (length short)"
    using assms Index_first[of "CHR ''.''" short fname] by simp
  show ?thesis
    using li ix by (simp add: packageAndName_def Let_def d nat_int_Suc)
qed

lemma packageAndName_no_dot:
  assumes "dir = [] \<or> last dir = CHR ''/''" "CHR ''/'' \<notin> set base" "CHR ''.'' \<notin> set base"
  shows "packageAndName \<lparr>func_Name = dir @ base, func_FileLine = fl\<rparr>
     = (dir, Replace base centerDot ''.'')"
proof (cases "dir = []")
  case True
  have "LastIndex base ''/'' = -1" "Index base ''.'' = -1"
    using assms by (auto intro: LastIndex_absent Index_absent)
  then show ?thesis
    using True by (simp add: packageAndName_def Let_def)
next
  case False
  then obtain d where d: "dir = d @ ''/''"
    using assms(1) by (metis append_butlast_last_id)
  have li: "LastIndex (dir @ base) ''/'' = int (length d)"
    using assms LastIndex_last[of "CHR ''/''" base d] by (simp add: d)
  have ix: "Index base ''.'' = -1"
    using assms by (auto intro: Index_absent)
  show ?thesis
    using li ix by (simp add: packageAndName_def Let_def d nat_int_Suc)
qed

lemma packageAndName_example:
  "packageAndName \<lparr>func_Name = ''example.com/pkg/sub.Type'' @ centerDot @ ''method'',
      func_FileLine = fl\<rparr> = (''example.com/pkg/sub'', ''Type.method'')"
  by code_simp

section \<open>Properties of stackable errors\<close>

subsection \<open>What a returning call did\<close>

lemma runtime_Callers_take:
  "runtime_Callers skip (replicate n 0) goroutine = (len, stack1) \<Longrightarrow>
   take len stack1 = take n (drop skip goroutine)"
  by (auto simp: runtime_Callers_def Let_def min_def)

lemma newStackableError_Inr:
  assumes "newStackableError d g s e k = Inr (p, s')"
  shows "0 \<le> d \<and> p = length (heap s) \<and>
    s' = s\<lparr>heap := heap s @
      [\<lparr>Err = e, Prefixes = [], stack = take (nat d) (drop (2 + k) g), frames = None\<rparr>]\<rparr>"
proof (cases "d < 0")
  case True
  with assms show ?thesis by (simp add: newStackableError_def)
next
  case False
  obtain len stack1 where c: "runtime_Callers (2 + k) (replicate (nat d) 0) g = (len, stack1)"
    by (cases "runtime_Callers (2 + k) (replicate (nat d) 0) g")
  from runtime_Callers_take[OF c] assms False c show ?thesis
    by (auto simp: newStackableError_def Let_def)
qed

lemma newStackableError_returns:
  assumes "0 \<le> d"
  shows "newStackableError d g s e k = Inr (length (heap s), s\<lparr>heap := heap s @
      [\<lparr>Err = e, Prefixes = [], stack = take (nat d) (drop (2 + k) g), frames = None\<rparr>]\<rparr>)"
proof -
  obtain len stack1 where c: "runtime_Callers (2 + k) (replicate (nat d) 0) g = (len, stack1)"
    by (cases "runtime_Callers (2 + k) (replicate (nat d) 0) g")
  from runtime_Callers_take[OF c] assms c show ?thesis
    by (auto simp: newStackableError_def Let_def)
qed

lemma Wrap_Inr:
  assumes "Wrap d g s v = Inr (p, s')"
  shows "(v = VErr (Stackable p) \<and> s' = s) \<or>
    (\<exists>e. (\<forall>q. e \<noteq> Stackable q) \<and> (\<forall>q. v \<noteq> VErr (Stackable q)) \<and> 0 \<le> d \<and> p = length (heap s) \<and>
       heap s' = heap s @
          [\<lparr>Err = e, Prefixes = [], stack = take (nat d) (drop 3 g), frames = None\<rparr>])"
proof (cases v)
  case (VErr e)
  then show ?thesis
    using assms by (cases e) (auto simp: fmt_Errorf_v_def dest!: newStackableError_Inr)
next
  case (VOther t)
  then show ?thesis
    using assms by (auto simp: fmt_Errorf_v_def dest!: newStackableError_Inr)
qed

lemma take_Suc_update:
  "i < length fs \<Longrightarrow> take (Suc i) (fs[i := x]) = take i fs @ [x]"
  by (simp add: take_Suc_conv_app_nth)

lemma frames_loop_eq:
  "i + length pcs = length fs \<Longrightarrow>
   frames_loop F pcs i fs looked =
     (take i fs @ map (\<lambda>pc. fst (NewStackFrame F pc)) pcs,
      looked @ concat (map (\<lambda>pc. snd (NewStackFrame F pc)) pcs))"
proof (induction pcs arbitrary: i fs looked)
  case Nil
  then show ?case by simp
next
  case (Cons pc pcs)
  then have i: "i < length fs" by simp
  have "Suc i + length pcs = length (fs[i := fst (NewStackFrame F pc)])"
    using Cons.prems by simp
  from Cons.IH[OF this] i show ?case
    by (simp add: split_beta take_Suc_update)
qed

lemma StackFrames_Inr:
  assumes "StackFrames F s p = Inr (fs, s', looked)"
  shows "p < length (heap s) \<and>
    ((frames (heap s ! p) = Some fs \<and> s' = s \<and> looked = []) \<or>
     (frames (heap s ! p) = None
      \<and> fs = map (\<lambda>pc. fst (NewStackFrame F pc)) (stack (heap s ! p))
      \<and> looked = concat (map (\<lambda>pc. snd (NewStackFrame F pc)) (stack (heap s ! p)))
      \<and> s' = s\<lparr>heap := (heap s)[p := (heap s ! p)\<lparr>frames := Some fs\<rparr>]\<rparr>))"
  using assms
  by (auto simp: StackFrames_def Let_def frames_loop_eq split: if_splits option.splits)

lemma StackFrames_returns:
  "p < length (heap s) \<Longrightarrow> \<exists>fs s' looked. StackFrames F s p = Inr (fs, s', looked)"
  by (auto simp: StackFrames_def Let_def split_beta split: option.splits)


lemma WrapPrefix_Inr:
  assumes "WrapPrefix d g s v pfx = Inr (p, s')"
  shows "\<exists>s1. Wrap d g s v = Inr (p, s1) \<and> p < length (heap s1) \<and>
    s' = s1\<lparr>heap := (heap s1)[p := (heap s1 ! p)\<lparr>Prefixes := Prefixes (heap s1 ! p) @ [pfx]\<rparr>]\<rparr>"
  using assms by (auto simp: WrapPrefix_def split: sum.splits if_splits)

lemma Stack_Inr:
  assumes "Stack F s p = Inr (t, s', looked)"
  shows "\<exists>fs. StackFrames F s p = Inr (fs, s', looked) \<and> t = stack_loop fs []"
  using assms by (auto simp: Stack_def split: sum.splits)

lemma StackTrace_Inr:
  assumes "StackTrace F s p = Some (Inr (t, s', looked))"
  shows "\<exists>msg body. Error s p = Some (Inr msg) \<and> Stack F s p = Inr (body, s', looked)
    \<and> t = ''ERROR: '' @ msg @ newline @ body"
  using assms by (auto simp: StackTrace_def split: sum.splits option.splits)

lemma Wrap_old_object:
  assumes "Wrap d g s v = Inr (q, s')" "p < length (heap s)"
  shows "p < length (heap s') \<and> heap s' ! p = heap s ! p"
  using Wrap_Inr[OF assms(1)] assms(2) by (auto simp: nth_append)

lemma WrapPrefix_old_object:
  assumes "WrapPrefix d g s v pfx = Inr (q, s')" "p < length (heap s)"
  shows "p < length (heap s') \<and> Err (heap s' ! p) = Err (heap s ! p)
    \<and> stack (heap s' ! p) = stack (heap s ! p) \<and> frames (heap s' ! p) = frames (heap s ! p)
    \<and> (\<exists>more. Prefixes (heap s' ! p) = Prefixes (heap s ! p) @ more)"
proof -
  from WrapPrefix_Inr[OF assms(1)] obtain s1 where w: "Wrap d g s v = Inr (q, s1)"
    and q: "q < length (heap s1)"
    and s': "s' = s1\<lparr>heap := (heap s1)[q := (heap s1 ! q)\<lparr>Prefixes := Prefixes (heap s1 ! q) @ [pfx]\<rparr>]\<rparr>"
    by blast
  from Wrap_old_object[OF w assms(2)] have p: "p < length (heap s1)" "heap s1 ! p = heap s ! p"
    by simp_all
  show ?thesis
    using p q by (cases "p = q") (simp_all add: s')
qed

lemma StackFrames_old_object:
  assumes "StackFrames F s q = Inr (fs, s', looked)" "p < length (heap s)"
  shows "p < length (heap s') \<and> Err (heap s' ! p) = Err (heap s ! p)
    \<and> stack (heap s' ! p) = stack (heap s ! p) \<and> Prefixes (heap s' ! p) = Prefixes (heap s ! p)
    \<and> (frames (heap s' ! p) = frames (heap s ! p) \<or>
        (frames (heap s ! p) = None \<and>
         frames (heap s' ! p) = Some (map (\<lambda>pc. fst (NewStackFrame F pc)) (stack (heap s ! p)))))"
  using StackFrames_Inr[OF assms(1)] assms(2)
  by (cases "p = q") auto

lemma call_old_object:
  assumes "call s s'" "p < length (heap s)"
  shows "p < length (heap s') \<and> Err (heap s' ! p) = Err (heap s ! p)
    \<and> stack (heap s' ! p) = stack (heap s ! p)
    \<and> (\<exists>more. Prefixes (heap s' ! p) = Prefixes (heap s ! p) @ more)
    \<and> (frames (heap s' ! p) = frames (heap s ! p) \<or>
        (frames (heap s ! p) = None \<and>
         (\<exists>F. frames (heap s' ! p) = Some (map (\<lambda>pc. fst (NewStackFrame F pc)) (stack (heap s ! p))))))"
  using assms(1)
proof cases
  case (call_Wrap d g e q)
  from Wrap_old_object[OF this assms(2)] show ?thesis by simp
next
  case (call_WrapPrefix d g e pfx q)
  from WrapPrefix_old_object[OF this assms(2)] show ?thesis by simp
next
  case (call_StackFrames F q fs looked)
  from StackFrames_old_object[OF this assms(2)] show ?thesis by auto
next
  case (call_Stack F q t looked)
  from Stack_Inr[OF this] obtain fs where "StackFrames F s q = Inr (fs, s', looked)"
    by blast
  from StackFrames_old_object[OF this assms(2)] show ?thesis by auto
next
  case (call_StackTrace F q t looked)
  from StackTrace_Inr[OF this] obtain body where "Stack F s q = Inr (body, s', looked)"
    by blast
  from Stack_Inr[OF this] obtain fs where "StackFrames F s q = Inr (fs, s', looked)"
    by blast
  from StackFrames_old_object[OF this assms(2)] show ?thesis by auto
qed

lemma StackFrames_length:
  assumes "StackFrames F s q = Inr (fs, s', looked)"
  shows "length (heap s') = length (heap s)"
  using StackFrames_Inr[OF assms] by auto

lemma Wrap_new_object:
  assumes "Wrap d g s v = Inr (q, s')" "length (heap s) \<le> p" "p < length (heap s')"
  shows "(\<forall>r. Err (heap s' ! p) \<noteq> Stackable r) \<and> q = p \<and> length (heap s') = Suc p"
  using Wrap_Inr[OF assms(1)] assms(2,3) by (auto simp: nth_append)

lemma call_new_object:
  assumes "call s s'" "length (heap s) \<le> p" "p < length (heap s')"
  shows "\<forall>r. Err (heap s' ! p) \<noteq> Stackable r"
  using assms(1)
proof cases
  case (call_Wrap d g e q)
  from Wrap_new_object[OF this assms(2,3)] show ?thesis by simp
next
  case (call_WrapPrefix d g e pfx q)
  from WrapPrefix_Inr[OF this] obtain s1 where w: "Wrap d g s e = Inr (q, s1)"
    and q: "q < length (heap s1)"
    and s': "s' = s1\<lparr>heap := (heap s1)[q := (heap s1 ! q)\<lparr>Prefixes := Prefixes (heap s1 ! q) @ [pfx]\<rparr>]\<rparr>"
    by blast
  have "p < length (heap s1)" using assms(3) by (simp add: s')
  from Wrap_new_object[OF w assms(2) this] show ?thesis
    by (simp add: s')
next
  case (call_StackFrames F q fs looked)
  from StackFrames_length[OF this] assms(2,3) show ?thesis by simp
next
  case (call_Stack F q t looked)
  from Stack_Inr[OF this] obtain fs where "StackFrames F s q = Inr (fs, s', looked)"
    by blast
  from StackFrames_length[OF this] assms(2,3) show ?thesis by simp
next
  case (call_StackTrace F q t looked)
  from StackTrace_Inr[OF this] obtain body where "Stack F s q = Inr (body, s', looked)"
    by blast
  from Stack_Inr[OF this] obtain fs where "StackFrames F s q = Inr (fs, s', looked)"
    by blast
  from StackFrames_length[OF this] assms(2,3) show ?thesis by simp
qed

lemma flat_iff: "flat s \<longleftrightarrow> (\<forall>p < length (heap s). \<forall>r. Err (heap s ! p) \<noteq> Stackable r)"
  by (auto simp: flat_def list_all_length split: error.splits)

lemma call_flat:
  assumes "call s s'" "flat s"
  shows "flat s'"
  unfolding flat_iff
proof (intro allI impI)
  fix p r
  assume p: "p < length (heap s')"
  show "Err (heap s' ! p) \<noteq> Stackable r"
  proof (cases "p < length (heap s)")
    case True
    with call_old_object[OF assms(1) True] assms(2) show ?thesis
      by (simp add: flat_iff)
  next
    case False
    with call_new_object[OF assms(1) _ p] show ?thesis by simp
  qed
qed

lemma calls_flat:
  assumes "call\<^sup>*\<^sup>* s s'" "flat s"
  shows "flat s'"
  using assms by (induction rule: rtranclp_induct) (auto intro: call_flat)

subsection \<open>Error along a chain of causes\<close>

lemma prefix_loop_eq:
  "prefix_loop pfxs msg = concat (map (\<lambda>pfx. pfx @ '': '') (rev pfxs)) @ msg"
  by (induction pfxs arbitrary: msg) auto

lemma prefix_loop_foldl:
  "prefix_loop pfxs msg = foldl (\<lambda>msg pfx. pfx @ '': '' @ msg) msg pfxs"
  by (induction pfxs arbitrary: msg) auto

lemma error_Error_Stackable:
  "p < length (heap s) \<Longrightarrow>
   error_Error s (Stackable p) =
     Option.bind (error_Error s (Err (heap s ! p))) (\<lambda>r.
       case r of Inl x \<Rightarrow> Some (Inl x)
       | Inr msg \<Rightarrow> Some (Inr (prefix_loop (Prefixes (heap s ! p)) msg)))"
  by (subst error_Error.simps) simp

lemma error_Error_other:
  "error_Error s ErrNil = Some (Inl NilDereference)"
  "error_Error s (Foreign i t) = Some (Inr t)"
  "error_Error s (ErrorString i t) = Some (Inr t)"
  "length (heap s) \<le> p \<Longrightarrow> error_Error s (Stackable p) = Some (Inl NilDereference)"
  by (subst error_Error.simps, simp)+

lemma error_Error_chain_ends:
  assumes "error_Error s e = Some (Inr m)"
  shows "\<exists>r. chain_ends s e r"
proof -
  have "\<forall>m'. (Inr m :: panic + string) = Inr m' \<longrightarrow> (\<exists>r. chain_ends s e r)"
    using assms
  proof (rule error_Error.raw_induct[where P = "\<lambda>s e y. \<forall>m. y = Inr m \<longrightarrow> (\<exists>r. chain_ends s e r)", rotated], goal_cases)
    case (1 approx s e y)
    show ?case
    proof (cases e)
      case (Stackable p)
      show ?thesis
      proof (intro allI impI)
        fix m assume y: "y = Inr m"
        from 1(2) y have p: "p < length (heap s)"
          by (auto simp: Stackable split: if_splits)
        with 1(2) y obtain y' where y': "approx s (Err (heap s ! p)) = Some y'"
          "(case y' of Inl x \<Rightarrow> Some (Inl x)
            | Inr msg \<Rightarrow> Some (Inr (prefix_loop (Prefixes (heap s ! p)) msg))) = Some (Inr m)"
          by (auto simp: Stackable bind_eq_Some_conv)
        then obtain m' where "y' = Inr m'"
          by (cases y') auto
        with 1(1)[OF y'(1)] p show "\<exists>r. chain_ends s e r"
          by (auto simp: Stackable intro: chain_ends.intros)
      qed
    qed (auto intro: chain_ends.intros)
  qed
  then show ?thesis by blast
qed

lemma cause_Stackable: "cause s a b \<Longrightarrow> \<exists>q. a = Stackable q"
  by (auto simp: cause_def)

lemma chain_ends_acyclic:
  "chain_ends s e r \<Longrightarrow> \<not> (cause s)\<^sup>+\<^sup>+ e e"
proof (induction rule: chain_ends.induct)
  case (ends_cause p r)
  show ?case
  proof
    assume "(cause s)\<^sup>+\<^sup>+ (Stackable p) (Stackable p)"
    then obtain z where z: "cause s (Stackable p) z" "(cause s)\<^sup>*\<^sup>* z (Stackable p)"
      by (auto dest: tranclpD)
    then have "z = Err (heap s ! p)"
      by (simp add: cause_def)
    with z have "(cause s)\<^sup>+\<^sup>+ (Err (heap s ! p)) (Err (heap s ! p))"
      by (auto intro: rtranclp_into_tranclp1)
    with ends_cause.IH show False by simp
  qed
qed (auto dest!: tranclpD cause_Stackable)

lemma error_Error_update:
  assumes "chain_ends s e r" "\<not> (cause s)\<^sup>*\<^sup>* e (Stackable p)"
  shows "error_Error (s\<lparr>heap := (heap s)[p := obj]\<rparr>) e = error_Error s e"
  using assms
proof (induction rule: chain_ends.induct)
  case (ends_cause q r)
  then have qp: "q \<noteq> p" by auto
  have "cause s (Stackable q) (Err (heap s ! q))"
    using ends_cause.hyps by (simp add: cause_def)
  with ends_cause.prems have "\<not> (cause s)\<^sup>*\<^sup>* (Err (heap s ! q)) (Stackable p)"
    by (meson converse_rtranclp_into_rtranclp)
  with ends_cause.IH have "error_Error (s\<lparr>heap := (heap s)[p := obj]\<rparr>) (Err (heap s ! q))
     = error_Error s (Err (heap s ! q))" by simp
  then show ?case
    using ends_cause.hyps qp by (simp add: error_Error_Stackable cong: sum.case_cong)
qed (simp_all add: error_Error_other)

lemma prefix_loop_snoc: "prefix_loop (pfxs @ [pfx]) msg = pfx @ '': '' @ prefix_loop pfxs msg"
  by (induction pfxs arbitrary: msg) auto

lemma Error_after_append:
  assumes "p < length (heap s)" "Error s p = Some (Inr m)"
  shows "Error (s\<lparr>heap := (heap s)[p := (heap s ! p)\<lparr>Prefixes := Prefixes (heap s ! p) @ [pfx]\<rparr>]\<rparr>) p
     = Some (Inr (pfx @ '': '' @ m))"
proof -
  let ?c = "Err (heap s ! p)"
  let ?s' = "s\<lparr>heap := (heap s)[p := (heap s ! p)\<lparr>Prefixes := Prefixes (heap s ! p) @ [pfx]\<rparr>]\<rparr>"
  from assms obtain y where y: "error_Error s ?c = Some y"
    "(case y of Inl x \<Rightarrow> Some (Inl x)
      | Inr msg \<Rightarrow> Some (Inr (prefix_loop (Prefixes (heap s ! p)) msg))) = Some (Inr m)"
    by (auto simp: Error_def error_Error_Stackable bind_eq_Some_conv)
  then obtain m0 where m0: "error_Error s ?c = Some (Inr m0)"
    and m: "m = prefix_loop (Prefixes (heap s ! p)) m0"
    by (cases y) auto
  from error_Error_chain_ends[OF m0] obtain r where r: "chain_ends s ?c r" by blast
  have "chain_ends s (Stackable p) r"
    using r assms(1) by (rule chain_ends.ends_cause[rotated])
  from chain_ends_acyclic[OF this] have "\<not> (cause s)\<^sup>*\<^sup>* ?c (Stackable p)"
    using assms(1) by (metis cause_def rtranclp_into_tranclp2)
  from error_Error_update[OF r this] have "error_Error ?s' ?c = Some (Inr m0)"
    by (simp add: m0)
  then show ?thesis
    using assms(1) by (simp add: Error_def error_Error_Stackable m prefix_loop_snoc)
qed

subsection \<open>Is along two chains of causes\<close>

lemma Is_same: "Is s e e = Some (Inr True)"
  by (subst Is.simps) simp

lemma Is_left:
  "Stackable p \<noteq> original \<Longrightarrow> p < length (heap s) \<Longrightarrow>
   Is s (Stackable p) original = Is s (Err (heap s ! p)) original"
  by (subst Is.simps) simp

lemma Is_right:
  "e \<noteq> Stackable q \<Longrightarrow> \<forall>p. e \<noteq> Stackable p \<Longrightarrow> q < length (heap s) \<Longrightarrow>
   Is s e (Stackable q) = Is s e (Err (heap s ! q))"
  by (subst Is.simps) (simp split: error.splits)

lemma Is_neither:
  "e \<noteq> original \<Longrightarrow> \<forall>p. e \<noteq> Stackable p \<Longrightarrow> \<forall>q. original \<noteq> Stackable q \<Longrightarrow>
   Is s e original = Some (Inr False)"
  by (subst Is.simps) (simp split: error.splits)

lemma chain_ends_fun: "chain_ends s e r \<Longrightarrow> chain_ends s e r' \<Longrightarrow> r = r'"
proof (induction arbitrary: r' rule: chain_ends.induct)
  case (ends_cause p r)
  from ends_cause.prems ends_cause.hyps(1) have "chain_ends s (Err (heap s ! p)) r'"
    by (auto elim: chain_ends.cases)
  with ends_cause.IH show ?case by simp
qed (auto elim: chain_ends.cases)

lemma Is_plain:
  "\<forall>p. a \<noteq> Stackable p \<Longrightarrow> \<forall>q. b \<noteq> Stackable q \<Longrightarrow> Is s a b = Some (Inr (a = b))"
  by (cases "a = b") (simp_all add: Is_same Is_neither)

lemma Is_end_left:
  assumes "chain_ends s b rb" "\<forall>p. a \<noteq> Stackable p"
  shows "Is s a b = Some (Inr (a = rb))"
  using assms
proof (induction rule: chain_ends.induct)
  case (ends_cause q r)
  then show ?case by (simp add: Is_right)
qed (simp_all add: Is_plain)

lemma Is_ends:
  assumes "chain_ends s a ra" "chain_ends s b rb"
  shows "Is s a b = Some (Inr (ra = rb))"
  using assms
proof (induction rule: chain_ends.induct)
  case (ends_cause p r)
  show ?case
  proof (cases "Stackable p = b")
    case True
    have "chain_ends s (Stackable p) r"
      using ends_cause.hyps by (auto intro: chain_ends.ends_cause)
    with ends_cause.prems True have "r = rb"
      by (auto dest: chain_ends_fun)
    with True show ?thesis by (simp add: Is_same)
  next
    case False
    with ends_cause show ?thesis by (simp add: Is_left)
  qed
qed (simp_all add: Is_end_left)

lemma spec_chain_equal_ends:
  assumes "spec_chain_equal s a b" "chain_ends s a ra" "chain_ends s b rb"
  shows "ra = rb"
  using assms
proof (induction arbitrary: ra rb rule: spec_chain_equal.induct)
  case (identical a)
  then show ?case by (auto dest: chain_ends_fun)
next
  case (cause_left p b)
  from cause_left.prems(1) have "chain_ends s (Err (heap s ! p)) ra"
    by (auto elim: chain_ends.cases)
  with cause_left show ?case by simp
next
  case (cause_right q a)
  from cause_right.prems(2) have "chain_ends s (Err (heap s ! q)) rb"
    by (auto elim: chain_ends.cases)
  with cause_right show ?case by simp
qed

text \<open>On a store where no cause is a \<^verbatim>\<open>StackableError\<close>, the chain of every live object
  ends at its cause.\<close>

lemma flat_chain_ends:
  assumes "flat s" "p < length (heap s)"
  shows "chain_ends s (Stackable p) (Err (heap s ! p))"
proof -
  from assms have "\<forall>r. Err (heap s ! p) \<noteq> Stackable r"
    by (simp add: flat_iff)
  then have "chain_ends s (Err (heap s ! p)) (Err (heap s ! p))"
    by (cases "Err (heap s ! p)") (auto intro: chain_ends.intros)
  with assms(2) show ?thesis
    by (rule chain_ends.ends_cause)
qed

lemma Is_True_spec:
  assumes "Is s a b = Some (Inr True)"
  shows "spec_chain_equal s a b"
proof -
  have "(Inr True :: panic + bool) = Inr True \<longrightarrow> spec_chain_equal s a b"
    using assms
  proof (rule Is.raw_induct[where P = "\<lambda>s a b y. y = Inr True \<longrightarrow> spec_chain_equal s a b", rotated], goal_cases)
    case (1 approx s e original y)
    show ?case
    proof (cases "e = original")
      case True
      then show ?thesis by (auto intro: spec_chain_equal.intros)
    next
      case False
      show ?thesis
      proof (cases e)
        case (Stackable p)
        with 1 False show ?thesis
          by (auto split: if_splits intro: spec_chain_equal.intros)
      next
        case ErrNil
        with 1 False show ?thesis
          by (cases original) (auto split: if_splits intro: spec_chain_equal.intros)
      next
        case (Foreign i t)
        with 1 False show ?thesis
          by (cases original) (auto split: if_splits intro: spec_chain_equal.intros)
      next
        case (ErrorString i t)
        with 1 False show ?thesis
          by (cases original) (auto split: if_splits intro: spec_chain_equal.intros)
      qed
    qed
  qed
  then show ?thesis by simp
qed

subsection \<open>Calls that return, and runs of calls\<close>

lemma Wrap_returns:
  assumes "0 \<le> d" "\<forall>q. e \<noteq> Stackable q" "e \<noteq> ErrNil"
  shows "Wrap d g s (VErr e) = Inr (length (heap s), s\<lparr>heap := heap s @
      [\<lparr>Err = e, Prefixes = [], stack = take (nat d) (drop 3 g), frames = None\<rparr>]\<rparr>)"
  using assms by (cases e) (simp_all add: newStackableError_returns)

lemma WrapPrefix_Stackable:
  assumes "p < length (heap s)"
  shows "WrapPrefix d g s (VErr (Stackable p)) pfx =
    Inr (p, s\<lparr>heap := (heap s)[p := (heap s ! p)\<lparr>Prefixes := Prefixes (heap s ! p) @ [pfx]\<rparr>]\<rparr>)"
  using assms by (simp add: WrapPrefix_def)

lemma Error_live:
  assumes "p < length (heap s)" "error_Error s (Err (heap s ! p)) = Some (Inr m)"
  shows "Error s p = Some (Inr (prefix_loop (Prefixes (heap s ! p)) m))"
  using assms by (simp add: Error_def error_Error_Stackable)

lemma error_Error_plain:
  assumes "\<forall>q. e \<noteq> Stackable q" "e \<noteq> ErrNil"
  shows "\<exists>m. \<forall>s. error_Error s e = Some (Inr m)"
  using assms by (cases e) (auto simp: error_Error_other)

lemma Is_after_Wrap:
  assumes "E \<noteq> ErrNil" "0 \<le> d"
  shows "\<exists>p s1. Wrap d g s (VErr E) = Inr (p, s1) \<and> Is s1 (Stackable p) E = Some (Inr True)
    \<and> (\<exists>s2. Wrap d2 g2 s1 (VErr (Stackable p)) = Inr (p, s2) \<and> Is s2 (Stackable p) E = Some (Inr True))
    \<and> (\<exists>p3 s3. Wrap d g3 s1 (VErr E) = Inr (p3, s3)
          \<and> Is s3 (Stackable p) (Stackable p3) = Some (Inr True)
          \<and> ((\<forall>q. E \<noteq> Stackable q) \<longrightarrow> p3 \<noteq> p))"
proof (cases "\<exists>q. E = Stackable q")
  case True
  then obtain q where "E = Stackable q" by blast
  then show ?thesis by (simp add: Is_same)
next
  case False
  then have ns: "\<forall>q. E \<noteq> Stackable q" by simp
  let ?obj = "\<lambda>g. \<lparr>Err = E, Prefixes = [], stack = take (nat d) (drop 3 g), frames = None\<rparr>"
  let ?p = "length (heap s)"
  let ?s1 = "s\<lparr>heap := heap s @ [?obj g]\<rparr>"
  let ?s3 = "?s1\<lparr>heap := heap ?s1 @ [?obj g3]\<rparr>"
  have w1: "Wrap d g s (VErr E) = Inr (?p, ?s1)"
    using assms ns by (simp add: Wrap_returns)
  have w3: "Wrap d g3 ?s1 (VErr E) = Inr (Suc ?p, ?s3)"
    using assms ns Wrap_returns[of d E g3 ?s1] by simp
  have ne: "Stackable q \<noteq> E" for q
    using ns by auto
  have "Is ?s1 (Stackable ?p) E = Is ?s1 E E"
    by (subst Is_left) (simp_all add: ne)
  then have i1: "Is ?s1 (Stackable ?p) E = Some (Inr True)"
    by (simp add: Is_same)
  have "Is ?s3 (Stackable ?p) (Stackable (Suc ?p)) = Is ?s3 E (Stackable (Suc ?p))"
    by (subst Is_left) (simp_all add: nth_append)
  also have "\<dots> = Is ?s3 E E"
    using ns by (subst Is_right) (simp_all add: nth_append)
  finally have i3: "Is ?s3 (Stackable ?p) (Stackable (Suc ?p)) = Some (Inr True)"
    by (simp add: Is_same)
  show ?thesis
    using w1 w3 i1 i3 by simp
qed

lemma calls_old_object:
  assumes "call\<^sup>*\<^sup>* s s'" "p < length (heap s)"
  shows "p < length (heap s') \<and> stack (heap s' ! p) = stack (heap s ! p)
    \<and> (frames (heap s' ! p) = frames (heap s ! p) \<or>
        (frames (heap s ! p) = None \<and>
         (\<exists>F. frames (heap s' ! p) = Some (map (\<lambda>pc. fst (NewStackFrame F pc)) (stack (heap s ! p))))))"
  using assms
proof (induction rule: rtranclp_induct)
  case base
  then show ?case by simp
next
  case (step t u)
  then have t: "p < length (heap t)" by simp
  from call_old_object[OF step.hyps(2) t] step.IH[OF step.prems] show ?case
    by auto
qed

lemma StackFrames_live:
  assumes "p < length (heap s)"
  shows "StackFrames F s p =
    (case frames (heap s ! p) of
       Some fs \<Rightarrow> Inr (fs, s, [])
     | None \<Rightarrow> Inr (map (\<lambda>pc. fst (NewStackFrame F pc)) (stack (heap s ! p)),
         s\<lparr>heap := (heap s)[p := (heap s ! p)
           \<lparr>frames := Some (map (\<lambda>pc. fst (NewStackFrame F pc)) (stack (heap s ! p)))\<rparr>]\<rparr>,
         concat (map (\<lambda>pc. snd (NewStackFrame F pc)) (stack (heap s ! p)))))"
  using assms by (simp add: StackFrames_def Let_def frames_loop_eq split: option.splits)

lemma stack_loop_eq:
  "stack_loop fs buf = buf @ concat (map (\<lambda>frame. String frame @ newline) fs)"
  by (induction fs arbitrary: buf) auto

lemma NewStackFrame_Caller: "Caller (fst (NewStackFrame F pc)) = pc"
  by (auto simp: NewStackFrame_def Func_def Let_def split_beta split: option.splits)

lemma Error_Inr_live:
  assumes "Error s p = Some (Inr msg)"
  shows "p < length (heap s)"
proof (rule ccontr)
  assume "\<not> p < length (heap s)"
  then have "Error s p = Some (Inl NilDereference)"
    by (simp add: Error_def error_Error_other)
  with assms show False by simp
qed

subsection \<open>A small run: one wrap, its frames resolved, a prefix added\<close>

lemma Wrap_example:
  "Wrap 2 [1, 2, 3, 4, 5, 6] \<lparr>heap = [], errorStrings = 0\<rparr> (VErr (Foreign 1 ''EOF''))
   = Inr (0, \<lparr>heap = [\<lparr>Err = Foreign 1 ''EOF'', Prefixes = [], stack = [4, 5], frames = None\<rparr>],
              errorStrings = 0\<rparr>)"
  by (simp add: newStackableError_returns)

lemma StackFrames_example:
  "StackFrames (\<lambda>pc. None)
     \<lparr>heap = [\<lparr>Err = Foreign 1 ''EOF'', Prefixes = [], stack = [4, 5], frames = None\<rparr>],
       errorStrings = 0\<rparr> 0
   = Inr ([\<lparr>Caller = 4, File = [], LineNumber = 0, FunctionName = [], Package = []\<rparr>,
           \<lparr>Caller = 5, File = [], LineNumber = 0, FunctionName = [], Package = []\<rparr>],
          \<lparr>heap = [\<lparr>Err = Foreign 1 ''EOF'', Prefixes = [], stack = [4, 5], frames = Some
             [\<lparr>Caller = 4, File = [], LineNumber = 0, FunctionName = [], Package = []\<rparr>,
              \<lparr>Caller = 5, File = [], LineNumber = 0, FunctionName = [], Package = []\<rparr>]\<rparr>],
            errorStrings = 0\<rparr>,
          [4, 5])"
  by (simp add: StackFrames_live NewStackFrame_def Func_def)

lemma WrapPrefix_example:
  "WrapPrefix 50 []
     \<lparr>heap = [\<lparr>Err = Foreign 1 ''EOF'', Prefixes = [], stack = [4, 5], frames = Some
             [\<lparr>Caller = 4, File = [], LineNumber = 0, FunctionName = [], Package = []\<rparr>,
              \<lparr>Caller = 5, File = [], LineNumber = 0, FunctionName = [], Package = []\<rparr>]\<rparr>],
            errorStrings = 0\<rparr> (VErr (Stackable 0)) ''load''
   = Inr (0, \<lparr>heap = [\<lparr>Err = Foreign 1 ''EOF'', Prefixes = [''load''], stack = [4, 5], frames = Some
             [\<lparr>Caller = 4, File = [], LineNumber = 0, FunctionName = [], Package = []\<rparr>,
              \<lparr>Caller = 5, File = [], LineNumber = 0, FunctionName = [], Package = []\<rparr>]\<rparr>],
            errorStrings = 0\<rparr>)"
  by (simp add: WrapPrefix_def)

section \<open>The claims about the frame resolver\<close>

text \<open>
  C4, as the code has it. \<^verbatim>\<open>packageAndName\<close> cuts the qualified name after its last
  slash; what stands before the cut is the start of the package. If the rest has a
  period, the part before its first period is appended to the package and the part after
  it is the function name; if it has none, the package is the path alone and the rest is
  the function name. In the function name each center dot becomes a period, every other
  byte is kept, no center dot is left, and a name without one is returned as it is. For
  the qualified name
  \<^verbatim>\<open>example.com/pkg/sub.Type\<close>, center dot, \<^verbatim>\<open>method\<close> this gives the package
  \<^verbatim>\<open>example.com/pkg/sub\<close> and the function name \<^verbatim>\<open>Type.method\<close>: the first period of the
  rest stands before \<^verbatim>\<open>Type\<close>, as in the source's own example, which wants
  \<^verbatim>\<open>*T.ptrmethod\<close> out of \<^verbatim>\<open>runtime/debug.*T\<close>, center dot, \<^verbatim>\<open>ptrmethod\<close>.
\<close>

theorem packageAndName_parts:
  "((dir = [] \<or> last dir = CHR ''/'') \<and> CHR ''/'' \<notin> set short \<and> CHR ''.'' \<notin> set short
      \<and> CHR ''/'' \<notin> set fname \<longrightarrow>
      packageAndName \<lparr>func_Name = dir @ short @ ''.'' @ fname, func_FileLine = fl\<rparr>
        = (dir @ short, Replace fname centerDot ''.''))
   \<and> ((dir = [] \<or> last dir = CHR ''/'') \<and> CHR ''/'' \<notin> set base \<and> CHR ''.'' \<notin> set base \<longrightarrow>
      packageAndName \<lparr>func_Name = dir @ base, func_FileLine = fl\<rparr>
        = (dir, Replace base centerDot ''.''))
   \<and> Replace (centerDot @ s) centerDot ''.'' = ''.'' @ Replace s centerDot ''.''
   \<and> (\<not> prefix centerDot (c # s) \<longrightarrow>
        Replace (c # s) centerDot ''.'' = c # Replace s centerDot ''.'')
   \<and> \<not> sublist centerDot (Replace fname centerDot ''.'')
   \<and> (\<not> sublist centerDot base \<longrightarrow> Replace base centerDot ''.'' = base)
   \<and> packageAndName \<lparr>func_Name = ''example.com/pkg/sub.Type'' @ centerDot @ ''method'',
        func_FileLine = fl\<rparr> = (''example.com/pkg/sub'', ''Type.method'')"
  using packageAndName_dot[of dir short fname fl] packageAndName_no_dot[of dir base fl]
    Replace_centerDot[of s] Replace_other[of c s] Replace_centerDot_aux[of fname]
    Replace_unchanged[of base] packageAndName_example[of fl]
  by blast

theorem packageAndName_parts_witness:
  "(''runtime/'' = [] \<or> last ''runtime/'' = CHR ''/'') \<and> CHR ''/'' \<notin> set ''debug''
   \<and> CHR ''.'' \<notin> set ''debug'' \<and> CHR ''/'' \<notin> set (''*T'' @ centerDot @ ''ptrmethod'')
   \<and> packageAndName \<lparr>func_Name = ''runtime/'' @ ''debug'' @ ''.'' @ ''*T'' @ centerDot @ ''ptrmethod'',
         func_FileLine = (\<lambda>pc. ([], 0))\<rparr>
       = (''runtime/'' @ ''debug'', Replace (''*T'' @ centerDot @ ''ptrmethod'') centerDot ''.'')
   \<and> CHR ''/'' \<notin> set ''main'' \<and> CHR ''.'' \<notin> set ''main''
   \<and> \<not> sublist centerDot ''main''
   \<and> packageAndName \<lparr>func_Name = ''runtime/'' @ ''main'', func_FileLine = (\<lambda>pc. ([], 0))\<rparr>
       = (''runtime/'', ''main'')
   \<and> \<not> prefix centerDot (CHR ''T'' # ''x'')
   \<and> Replace (CHR ''T'' # ''x'') centerDot ''.'' = CHR ''T'' # Replace ''x'' centerDot ''.''"
  using packageAndName_parts[of "''runtime/''" "''debug''" "''*T'' @ centerDot @ ''ptrmethod''"
      "\<lambda>pc. ([], 0)" "''main''" "''x''" "CHR ''T''"]
  by (simp add: centerDot_def sublist_Cons_right)

text \<open>
  C4 as the claim words it fails at its own example: the split of
  \<^verbatim>\<open>example.com/pkg/sub.Type\<close>, center dot, \<^verbatim>\<open>method\<close> is not the package
  \<^verbatim>\<open>example.com/pkg/sub.Type\<close> with the function name \<^verbatim>\<open>method\<close>.
\<close>

theorem packageAndName_example_counterexample:
  "packageAndName \<lparr>func_Name = ''example.com/pkg/sub.Type'' @ centerDot @ ''method'',
      func_FileLine = (\<lambda>pc. ([], 0))\<rparr> \<noteq> (''example.com/pkg/sub.Type'', ''method'')"
  by code_simp

text \<open>
  C5. \<^verbatim>\<open>RelativeFilePath\<close> returns a path with no folder named \<^verbatim>\<open>src\<close> unchanged. When
  the folders of the path are \<open>before\<close>, then \<^verbatim>\<open>src\<close>, then \<open>after\<close>, with no \<^verbatim>\<open>src\<close> in
  \<open>before\<close>, the result is a slash and a folder for each folder of \<open>after\<close>, and the path
  is what stands before that \<^verbatim>\<open>src\<close>, then \<^verbatim>\<open>src\<close>, then the result: everything up to
  and including the folder is stripped. \<^verbatim>\<open>/home/build/src/pkg/file.go\<close> gives
  \<^verbatim>\<open>/pkg/file.go\<close>.
\<close>

theorem RelativeFilePath_src:
  "(''src'' \<notin> set (Split file CHR ''/'') \<longrightarrow> RelativeFilePath file = file)
   \<and> (Split file CHR ''/'' = before @ ''src'' # after \<and> ''src'' \<notin> set before \<longrightarrow>
        RelativeFilePath file = concat (map (\<lambda>f. ''/'' @ f) after)
        \<and> file = concat (map (\<lambda>f. f @ ''/'') before) @ ''src'' @ RelativeFilePath file)
   \<and> RelativeFilePath ''/home/build/src/pkg/file.go'' = ''/pkg/file.go''"
proof -
  have "RelativeFilePath ''/home/build/src/pkg/file.go'' = ''/pkg/file.go''"
    by code_simp
  then show ?thesis
    using RelativeFilePath_absent[of "file"] RelativeFilePath_present[of "file" before after]
    by blast
qed


theorem RelativeFilePath_src_witness:
  "''src'' \<notin> set (Split ''/usr/lib/x.go'' CHR ''/'')
   \<and> RelativeFilePath ''/usr/lib/x.go'' = ''/usr/lib/x.go''
   \<and> Split ''/go/src/errgo/src/x.go'' CHR ''/'' = [[], ''go''] @ ''src'' # [''errgo'', ''src'', ''x.go'']
   \<and> ''src'' \<notin> set [[], ''go'']
   \<and> RelativeFilePath ''/go/src/errgo/src/x.go'' = ''/errgo/src/x.go''"
  using RelativeFilePath_src[of "''/usr/lib/x.go''" "[[], ''go'']" "[''errgo'', ''src'', ''x.go'']"]
    RelativeFilePath_src[of "''/go/src/errgo/src/x.go''" "[[], ''go'']" "[''errgo'', ''src'', ''x.go'']"]
  by (simp add: Split_example_src Split_example_plain)

text \<open>
  C8. \<^verbatim>\<open>NewStackFrame\<close> has no failing branch: it returns a frame for every address and
  every symbol table. For the address 0 the frame has an empty file, function name and
  package and line 0, and no symbol lookup was made. For an address of which the symbol
  table knows nothing the frame has the same empty fields, after the one lookup when the
  address is not 0.
\<close>

theorem NewStackFrame_total:
  "NewStackFrame FuncForPC 0 =
     (\<lparr>Caller = 0, File = [], LineNumber = 0, FunctionName = [], Package = []\<rparr>, [])
   \<and> (FuncForPC caller = None \<longrightarrow>
       NewStackFrame FuncForPC caller =
         (\<lparr>Caller = caller, File = [], LineNumber = 0, FunctionName = [], Package = []\<rparr>,
          if caller = 0 then [] else [caller]))"
  by (auto simp: NewStackFrame_def Func_def Let_def)

theorem NewStackFrame_total_witness:
  "(\<lambda>pc. if pc = 4198400
          then Some \<lparr>func_Name = ''main.main'', func_FileLine = (\<lambda>pc. (''/src/main.go'', 7))\<rparr>
          else None) (5 :: uintptr) = None
   \<and> NewStackFrame
        (\<lambda>pc. if pc = 4198400
          then Some \<lparr>func_Name = ''main.main'', func_FileLine = (\<lambda>pc. (''/src/main.go'', 7))\<rparr>
          else None) 5
       = (\<lparr>Caller = 5, File = [], LineNumber = 0, FunctionName = [], Package = []\<rparr>, [5])"
  using NewStackFrame_total[of
      "\<lambda>pc. if pc = 4198400
          then Some \<lparr>func_Name = ''main.main'', func_FileLine = (\<lambda>pc. (''/src/main.go'', 7))\<rparr>
          else None" 5]
  by simp

section \<open>The claims about stackable errors\<close>

text \<open>
  C1. \<^verbatim>\<open>Wrap\<close> of a value that is already a \<^verbatim>\<open>*StackableError\<close> returns that pointer and
  leaves the whole state as it was: the object keeps its captured addresses and its
  prefixes, and no object is allocated, so no stack is captured. Any other value gets
  one new object, whose cause is not a \<^verbatim>\<open>StackableError\<close>. So when no object of the store
  has a \<^verbatim>\<open>StackableError\<close> as its cause, none has one after any number of calls of the
  exported functions.
\<close>

theorem Wrap_idempotent:
  "Wrap MaxStackDepth goroutine s (VErr (Stackable p)) = Inr (p, s)
   \<and> (Wrap MaxStackDepth goroutine s v = Inr (q, s') \<and> (\<forall>r. v \<noteq> VErr (Stackable r)) \<longrightarrow>
        (\<exists>e. (\<forall>r. e \<noteq> Stackable r) \<and> q = length (heap s) \<and>
           heap s' = heap s @ [\<lparr>Err = e, Prefixes = [],
             stack = take (nat MaxStackDepth) (drop 3 goroutine), frames = None\<rparr>]))
   \<and> (flat s \<and> call\<^sup>*\<^sup>* s s'' \<longrightarrow> flat s'')"
proof -
  have "Wrap MaxStackDepth goroutine s v = Inr (q, s') \<Longrightarrow> \<forall>r. v \<noteq> VErr (Stackable r) \<Longrightarrow>
    \<exists>e. (\<forall>r. e \<noteq> Stackable r) \<and> q = length (heap s) \<and>
           heap s' = heap s @ [\<lparr>Err = e, Prefixes = [],
             stack = take (nat MaxStackDepth) (drop 3 goroutine), frames = None\<rparr>]"
    by (drule Wrap_Inr) auto
  then show ?thesis
    using calls_flat[of s s''] by auto
qed

theorem Wrap_idempotent_witness:
  "Wrap 2 [1, 2, 3, 4, 5, 6] \<lparr>heap = [], errorStrings = 0\<rparr> (VErr (Foreign 1 ''EOF''))
     = Inr (0, \<lparr>heap = [\<lparr>Err = Foreign 1 ''EOF'', Prefixes = [], stack = [4, 5], frames = None\<rparr>],
              errorStrings = 0\<rparr>)
   \<and> (\<forall>r. VErr (Foreign 1 ''EOF'') \<noteq> VErr (Stackable r))
   \<and> flat \<lparr>heap = [], errorStrings = 0\<rparr>
   \<and> call\<^sup>*\<^sup>* \<lparr>heap = [], errorStrings = 0\<rparr>
        \<lparr>heap = [\<lparr>Err = Foreign 1 ''EOF'', Prefixes = [], stack = [4, 5], frames = None\<rparr>],
          errorStrings = 0\<rparr>
   \<and> flat \<lparr>heap = [\<lparr>Err = Foreign 1 ''EOF'', Prefixes = [], stack = [4, 5], frames = None\<rparr>],
          errorStrings = 0\<rparr>"
proof -
  let ?s0 = "\<lparr>heap = [], errorStrings = 0\<rparr>"
  let ?s1 = "\<lparr>heap = [\<lparr>Err = Foreign 1 ''EOF'', Prefixes = [], stack = [4, 5], frames = None\<rparr>],
          errorStrings = 0\<rparr>"
  have "call ?s0 ?s1"
    using Wrap_example by (rule call_Wrap)
  then have c: "call\<^sup>*\<^sup>* ?s0 ?s1" by (rule r_into_rtranclp)
  have f: "flat ?s0" by (simp add: flat_def)
  from Wrap_idempotent[of 2 "[1, 2, 3, 4, 5, 6]" ?s0 0 "VErr (Foreign 1 ''EOF'')" 0 ?s1 ?s1] c f Wrap_example
  show ?thesis by simp
qed

text \<open>
  C2. \<^verbatim>\<open>Error()\<close> of a live object whose cause has the text \<open>m\<close> folds the prefixes onto
  \<open>m\<close> in the order they were appended, each step putting the prefix and \<^verbatim>\<open>": "\<close> before
  the text so far; the result is the prefixes in reverse order, each followed by
  \<^verbatim>\<open>": "\<close>, then \<open>m\<close>, so the prefix appended last stands first. For an error \<open>e\<close> that is
  neither \<^verbatim>\<open>nil\<close> nor a \<^verbatim>\<open>StackableError\<close>, and a \<^verbatim>\<open>MaxStackDepth\<close> that is not negative,
  \<^verbatim>\<open>WrapPrefix(WrapPrefix(e, "a"), "b")\<close> returns, and its \<^verbatim>\<open>Error()\<close> is \<^verbatim>\<open>"b: a: "\<close>
  followed by the text of \<open>e\<close>.
\<close>

theorem Error_prefix_order:
  "(p < length (heap s) \<and> error_Error s (Err (heap s ! p)) = Some (Inr m) \<longrightarrow>
      Error s p = Some (Inr (foldl (\<lambda>msg pfx. pfx @ '': '' @ msg) m (Prefixes (heap s ! p))))
      \<and> foldl (\<lambda>msg pfx. pfx @ '': '' @ msg) m (Prefixes (heap s ! p))
          = concat (map (\<lambda>pfx. pfx @ '': '') (rev (Prefixes (heap s ! p)))) @ m)
   \<and> ((\<forall>q. e \<noteq> Stackable q) \<and> e \<noteq> ErrNil \<and> 0 \<le> MaxStackDepth \<longrightarrow>
      (\<exists>err s1 s2 txt.
         WrapPrefix MaxStackDepth goroutine s (VErr e) ''a'' = Inr (err, s1)
         \<and> WrapPrefix MaxStackDepth' goroutine' s1 (VErr (Stackable err)) ''b'' = Inr (err, s2)
         \<and> error_Error s e = Some (Inr txt)
         \<and> Error s2 err = Some (Inr (''b: a: '' @ txt))))"
proof (intro conjI impI)
  assume a: "p < length (heap s) \<and> error_Error s (Err (heap s ! p)) = Some (Inr m)"
  then show "Error s p = Some (Inr (foldl (\<lambda>msg pfx. pfx @ '': '' @ msg) m (Prefixes (heap s ! p))))"
    using Error_live[of p s m] by (simp add: prefix_loop_foldl)
  show "foldl (\<lambda>msg pfx. pfx @ '': '' @ msg) m (Prefixes (heap s ! p))
          = concat (map (\<lambda>pfx. pfx @ '': '') (rev (Prefixes (heap s ! p)))) @ m"
    using prefix_loop_foldl[of "Prefixes (heap s ! p)" m] prefix_loop_eq[of "Prefixes (heap s ! p)" m]
    by simp
next
  assume a: "(\<forall>q. e \<noteq> Stackable q) \<and> e \<noteq> ErrNil \<and> 0 \<le> MaxStackDepth"
  let ?obj = "\<lparr>Err = e, Prefixes = [], stack = take (nat MaxStackDepth) (drop 3 goroutine), frames = None\<rparr>"
  let ?p = "length (heap s)"
  let ?s1 = "s\<lparr>heap := heap s @ [?obj\<lparr>Prefixes := [''a'']\<rparr>]\<rparr>"
  let ?s2 = "s\<lparr>heap := heap s @ [?obj\<lparr>Prefixes := [''a'', ''b'']\<rparr>]\<rparr>"
  from a obtain m0 where m0: "\<And>t. error_Error t e = Some (Inr m0)"
    using error_Error_plain[of e] by blast
  have w1: "WrapPrefix MaxStackDepth goroutine s (VErr e) ''a'' = Inr (?p, ?s1)"
    using a by (simp add: WrapPrefix_def Wrap_returns)
  have "?p < length (heap ?s1)" by simp
  from WrapPrefix_Stackable[OF this]
  have w2: "WrapPrefix MaxStackDepth' goroutine' ?s1 (VErr (Stackable ?p)) ''b'' = Inr (?p, ?s2)"
    by simp
  have "Error ?s2 ?p = Some (Inr (''b: a: '' @ m0))"
    using Error_live[of ?p ?s2 m0] m0 by simp
  with w1 w2 m0 show "\<exists>err s1 s2 txt.
         WrapPrefix MaxStackDepth goroutine s (VErr e) ''a'' = Inr (err, s1)
         \<and> WrapPrefix MaxStackDepth' goroutine' s1 (VErr (Stackable err)) ''b'' = Inr (err, s2)
         \<and> error_Error s e = Some (Inr txt)
         \<and> Error s2 err = Some (Inr (''b: a: '' @ txt))"
    by blast
qed

theorem Error_prefix_order_witness:
  "(0::nat) < length (heap \<lparr>heap = [\<lparr>Err = Foreign 1 ''EOF'', Prefixes = [''a'', ''b''], stack = [4, 5],
        frames = None\<rparr>], errorStrings = 0\<rparr>)
   \<and> error_Error \<lparr>heap = [\<lparr>Err = Foreign 1 ''EOF'', Prefixes = [''a'', ''b''], stack = [4, 5],
        frames = None\<rparr>], errorStrings = 0\<rparr> (Foreign 1 ''EOF'') = Some (Inr ''EOF'')
   \<and> Error \<lparr>heap = [\<lparr>Err = Foreign 1 ''EOF'', Prefixes = [''a'', ''b''], stack = [4, 5],
        frames = None\<rparr>], errorStrings = 0\<rparr> 0 = Some (Inr ''b: a: EOF'')
   \<and> (\<forall>q. Foreign 1 ''EOF'' \<noteq> Stackable q) \<and> Foreign 1 ''EOF'' \<noteq> ErrNil \<and> (0::int) \<le> 2
   \<and> (\<exists>err s1 s2.
         WrapPrefix 2 [1, 2, 3, 4, 5, 6] \<lparr>heap = [], errorStrings = 0\<rparr> (VErr (Foreign 1 ''EOF'')) ''a''
           = Inr (err, s1)
         \<and> WrapPrefix 7 [] s1 (VErr (Stackable err)) ''b'' = Inr (err, s2)
         \<and> Error s2 err = Some (Inr ''b: a: EOF''))"
proof -
  let ?s = "\<lparr>heap = [\<lparr>Err = Foreign 1 ''EOF'', Prefixes = [''a'', ''b''], stack = [4, 5],
        frames = None\<rparr>], errorStrings = 0\<rparr>"
  have e: "error_Error t (Foreign 1 ''EOF'') = Some (Inr ''EOF'')" for t
    by (simp add: error_Error_other)
  from Error_prefix_order[where p = 0 and s = ?s and m = "''EOF''" and e = "Foreign 1 ''EOF''"
      and MaxStackDepth = 2] e
  have first: "Error ?s 0 = Some (Inr ''b: a: EOF'')"
    by simp
  from Error_prefix_order[where s = "\<lparr>heap = [], errorStrings = 0\<rparr>" and e = "Foreign 1 ''EOF''"
      and MaxStackDepth = 2 and goroutine = "[1, 2, 3, 4, 5, 6]" and MaxStackDepth' = 7
      and goroutine' = "[]"] e
  have "\<exists>err s1 s2.
         WrapPrefix 2 [1, 2, 3, 4, 5, 6] \<lparr>heap = [], errorStrings = 0\<rparr> (VErr (Foreign 1 ''EOF'')) ''a''
           = Inr (err, s1)
         \<and> WrapPrefix 7 [] s1 (VErr (Stackable err)) ''b'' = Inr (err, s2)
         \<and> Error s2 err = Some (Inr ''b: a: EOF'')"
    by simp
  with first e show ?thesis by simp
qed

text \<open>
  C3. When the chains of causes of \<open>a\<close> and of \<open>b\<close> both end, \<^verbatim>\<open>Is(a, b)\<close> returns, it
  tells whether the two chains end at the same error, and it returns true exactly when
  \<open>a\<close> and \<open>b\<close> are chain-equal as the specification defines it: identical, or \<open>a\<close> a
  \<^verbatim>\<open>StackableError\<close> whose cause is chain-equal to \<open>b\<close>, or \<open>b\<close> a \<^verbatim>\<open>StackableError\<close> whose
  cause is chain-equal to \<open>a\<close>. The chains of all errors that the package builds end. On
  any store, a true answer implies chain equality. For an error \<open>E\<close> that is not \<^verbatim>\<open>nil\<close> and a \<^verbatim>\<open>MaxStackDepth\<close> that is not
  negative, \<^verbatim>\<open>Is(Wrap(E), E)\<close>, \<^verbatim>\<open>Is(Wrap(Wrap(E)), E)\<close> and \<^verbatim>\<open>Is\<close> of two wraps of \<open>E\<close> are
  true, the two wraps being two objects when \<open>E\<close> is not a \<^verbatim>\<open>StackableError\<close> itself.
\<close>

theorem Is_chain_equality:
  "(chain_ends s a ra \<and> chain_ends s b rb \<longrightarrow>
      Is s a b = Some (Inr (ra = rb))
      \<and> (Is s a b = Some (Inr True) \<longleftrightarrow> spec_chain_equal s a b))
   \<and> (Is s a b = Some (Inr True) \<longrightarrow> spec_chain_equal s a b)
   \<and> (E \<noteq> ErrNil \<and> 0 \<le> MaxStackDepth \<longrightarrow>
      (\<exists>p s1. Wrap MaxStackDepth goroutine s (VErr E) = Inr (p, s1)
        \<and> Is s1 (Stackable p) E = Some (Inr True)
        \<and> (\<exists>s2. Wrap MaxStackDepth2 goroutine2 s1 (VErr (Stackable p)) = Inr (p, s2)
              \<and> Is s2 (Stackable p) E = Some (Inr True))
        \<and> (\<exists>p3 s3. Wrap MaxStackDepth goroutine3 s1 (VErr E) = Inr (p3, s3)
              \<and> Is s3 (Stackable p) (Stackable p3) = Some (Inr True)
              \<and> ((\<forall>q. E \<noteq> Stackable q) \<longrightarrow> p3 \<noteq> p))))"
proof (intro conjI impI)
  assume c: "chain_ends s a ra \<and> chain_ends s b rb"
  then have i: "Is s a b = Some (Inr (ra = rb))"
    by (simp add: Is_ends)
  then show "Is s a b = Some (Inr (ra = rb))" .
  show "Is s a b = Some (Inr True) \<longleftrightarrow> spec_chain_equal s a b"
  proof
    assume "Is s a b = Some (Inr True)"
    then show "spec_chain_equal s a b" by (rule Is_True_spec)
  next
    assume "spec_chain_equal s a b"
    with c have "ra = rb" by (auto dest: spec_chain_equal_ends)
    with i show "Is s a b = Some (Inr True)" by simp
  qed
next
  assume "Is s a b = Some (Inr True)"
  then show "spec_chain_equal s a b" by (rule Is_True_spec)
next
  assume "E \<noteq> ErrNil \<and> 0 \<le> MaxStackDepth"
  then show "\<exists>p s1. Wrap MaxStackDepth goroutine s (VErr E) = Inr (p, s1)
        \<and> Is s1 (Stackable p) E = Some (Inr True)
        \<and> (\<exists>s2. Wrap MaxStackDepth2 goroutine2 s1 (VErr (Stackable p)) = Inr (p, s2)
              \<and> Is s2 (Stackable p) E = Some (Inr True))
        \<and> (\<exists>p3 s3. Wrap MaxStackDepth goroutine3 s1 (VErr E) = Inr (p3, s3)
              \<and> Is s3 (Stackable p) (Stackable p3) = Some (Inr True)
              \<and> ((\<forall>q. E \<noteq> Stackable q) \<longrightarrow> p3 \<noteq> p))"
    using Is_after_Wrap[of E MaxStackDepth goroutine s MaxStackDepth2 goroutine2 goroutine3]
    by simp
qed

theorem Is_chain_equality_witness:
  "chain_ends \<lparr>heap = [\<lparr>Err = Foreign 1 ''EOF'', Prefixes = [], stack = [4, 5], frames = None\<rparr>,
                      \<lparr>Err = Foreign 1 ''EOF'', Prefixes = [], stack = [7], frames = None\<rparr>],
              errorStrings = 0\<rparr> (Stackable 0) (Foreign 1 ''EOF'')
   \<and> chain_ends \<lparr>heap = [\<lparr>Err = Foreign 1 ''EOF'', Prefixes = [], stack = [4, 5], frames = None\<rparr>,
                      \<lparr>Err = Foreign 1 ''EOF'', Prefixes = [], stack = [7], frames = None\<rparr>],
              errorStrings = 0\<rparr> (Stackable 1) (Foreign 1 ''EOF'')
   \<and> spec_chain_equal \<lparr>heap = [\<lparr>Err = Foreign 1 ''EOF'', Prefixes = [], stack = [4, 5], frames = None\<rparr>,
                      \<lparr>Err = Foreign 1 ''EOF'', Prefixes = [], stack = [7], frames = None\<rparr>],
              errorStrings = 0\<rparr> (Stackable 0) (Stackable 1)
   \<and> Is \<lparr>heap = [\<lparr>Err = Foreign 1 ''EOF'', Prefixes = [], stack = [4, 5], frames = None\<rparr>,
                      \<lparr>Err = Foreign 1 ''EOF'', Prefixes = [], stack = [7], frames = None\<rparr>],
              errorStrings = 0\<rparr> (Stackable 0) (Stackable 1) = Some (Inr True)
   \<and> Foreign 1 ''EOF'' \<noteq> ErrNil \<and> (0::int) \<le> 2
   \<and> (\<exists>p s1. Wrap 2 [1, 2, 3, 4, 5, 6] \<lparr>heap = [], errorStrings = 0\<rparr> (VErr (Foreign 1 ''EOF''))
          = Inr (p, s1)
        \<and> Is s1 (Stackable p) (Foreign 1 ''EOF'') = Some (Inr True))"
proof -
  let ?s = "\<lparr>heap = [\<lparr>Err = Foreign 1 ''EOF'', Prefixes = [], stack = [4, 5], frames = None\<rparr>,
                      \<lparr>Err = Foreign 1 ''EOF'', Prefixes = [], stack = [7], frames = None\<rparr>],
              errorStrings = 0\<rparr>"
  have a: "chain_ends ?s (Stackable 0) (Foreign 1 ''EOF'')"
    by (rule chain_ends.ends_cause) (simp_all add: chain_ends.ends_foreign)
  have b: "chain_ends ?s (Stackable 1) (Foreign 1 ''EOF'')"
    by (rule chain_ends.ends_cause) (simp_all add: chain_ends.ends_foreign)
  have "spec_chain_equal ?s (Foreign 1 ''EOF'') (Stackable 1)"
    by (rule spec_chain_equal.cause_right) (simp_all add: spec_chain_equal.identical)
  then have sp: "spec_chain_equal ?s (Stackable 0) (Stackable 1)"
    by (intro spec_chain_equal.cause_left) simp_all
  from Is_chain_equality[where s = ?s and a = "Stackable 0" and b = "Stackable 1"
      and ra = "Foreign 1 ''EOF''" and rb = "Foreign 1 ''EOF''" and E = "Foreign 1 ''EOF''"
      and MaxStackDepth = 2] a b sp
  have i: "Is ?s (Stackable 0) (Stackable 1) = Some (Inr True)"
    by blast
  have h: "Foreign 1 ''EOF'' \<noteq> ErrNil \<and> (0::int) \<le> 2"
    by simp
  from Is_chain_equality[where s = "\<lparr>heap = [], errorStrings = 0\<rparr>" and E = "Foreign 1 ''EOF''"
      and MaxStackDepth = 2 and goroutine = "[1, 2, 3, 4, 5, 6]", THEN conjunct2, THEN conjunct2,
      THEN mp, OF h]
  have w: "\<exists>p s1. Wrap 2 [1, 2, 3, 4, 5, 6] \<lparr>heap = [], errorStrings = 0\<rparr> (VErr (Foreign 1 ''EOF''))
          = Inr (p, s1)
        \<and> Is s1 (Stackable p) (Foreign 1 ''EOF'') = Some (Inr True)"
    by blast
  from a b sp i w show ?thesis by simp
qed

text \<open>
  C6. Take a call of \<^verbatim>\<open>Wrap\<close> or \<^verbatim>\<open>WrapPrefix\<close> on a value that is not yet a
  \<^verbatim>\<open>*StackableError\<close>, made while \<^verbatim>\<open>MaxStackDepth\<close> had the value \<open>MaxStackDepth\<close>, and
  any later calls of the exported functions, under any values of the variable. Then
  \<^verbatim>\<open>Callers()\<close> of the returned error has at most \<open>MaxStackDepth\<close> addresses and
  \<^verbatim>\<open>StackFrames()\<close> returns at most \<open>MaxStackDepth\<close> frames, however long the stack of the
  goroutine was.
\<close>

theorem depth_bound:
  assumes "Wrap MaxStackDepth goroutine s v = Inr (p, s1)
      \<or> WrapPrefix MaxStackDepth goroutine s v pfx = Inr (p, s1)"
    and "\<forall>q. v \<noteq> VErr (Stackable q)"
    and "call\<^sup>*\<^sup>* s1 s2"
  shows "\<exists>pcs fs s3 looked.
      Callers s2 p = Inr pcs \<and> int (length pcs) \<le> MaxStackDepth
      \<and> StackFrames FuncForPC s2 p = Inr (fs, s3, looked) \<and> int (length fs) \<le> MaxStackDepth"
proof -
  have new: "p < length (heap s1) \<and> 0 \<le> MaxStackDepth
     \<and> stack (heap s1 ! p) = take (nat MaxStackDepth) (drop 3 goroutine)
     \<and> frames (heap s1 ! p) = None"
    using assms(1)
  proof
    assume "Wrap MaxStackDepth goroutine s v = Inr (p, s1)"
    from Wrap_Inr[OF this] assms(2) show ?thesis by auto
  next
    assume "WrapPrefix MaxStackDepth goroutine s v pfx = Inr (p, s1)"
    from WrapPrefix_Inr[OF this] obtain t where w: "Wrap MaxStackDepth goroutine s v = Inr (p, t)"
      and p: "p < length (heap t)"
      and s1: "s1 = t\<lparr>heap := (heap t)[p := (heap t ! p)\<lparr>Prefixes := Prefixes (heap t ! p) @ [pfx]\<rparr>]\<rparr>"
      by blast
    from Wrap_Inr[OF w] assms(2) p show ?thesis by (auto simp: s1)
  qed
  then have len: "int (length (stack (heap s1 ! p))) \<le> MaxStackDepth"
    by (auto simp: min_def)
  from new calls_old_object[OF assms(3), of p]
  have s2: "p < length (heap s2)" "stack (heap s2 ! p) = stack (heap s1 ! p)"
    "frames (heap s2 ! p) = None \<or>
      (\<exists>F. frames (heap s2 ! p) = Some (map (\<lambda>pc. fst (NewStackFrame F pc)) (stack (heap s1 ! p))))"
    by auto
  have c: "Callers s2 p = Inr (stack (heap s1 ! p))"
    using s2 by (simp add: Callers_def)
  from s2(3) have "\<exists>fs s3 looked. StackFrames FuncForPC s2 p = Inr (fs, s3, looked)
     \<and> length fs = length (stack (heap s1 ! p))"
    using s2(1,2) by (auto simp: StackFrames_live)
  with c len show ?thesis by auto
qed

theorem depth_bound_witness:
  "(Wrap 2 [1, 2, 3, 4, 5, 6] \<lparr>heap = [], errorStrings = 0\<rparr> (VErr (Foreign 1 ''EOF''))
      = Inr (0, \<lparr>heap = [\<lparr>Err = Foreign 1 ''EOF'', Prefixes = [], stack = [4, 5], frames = None\<rparr>],
              errorStrings = 0\<rparr>))
   \<and> (\<forall>q. VErr (Foreign 1 ''EOF'') \<noteq> VErr (Stackable q))
   \<and> call\<^sup>*\<^sup>*
        \<lparr>heap = [\<lparr>Err = Foreign 1 ''EOF'', Prefixes = [], stack = [4, 5], frames = None\<rparr>],
              errorStrings = 0\<rparr>
        \<lparr>heap = [\<lparr>Err = Foreign 1 ''EOF'', Prefixes = [], stack = [4, 5], frames = Some
             [\<lparr>Caller = 4, File = [], LineNumber = 0, FunctionName = [], Package = []\<rparr>,
              \<lparr>Caller = 5, File = [], LineNumber = 0, FunctionName = [], Package = []\<rparr>]\<rparr>],
            errorStrings = 0\<rparr>
   \<and> (\<exists>pcs fs s3 looked.
        Callers \<lparr>heap = [\<lparr>Err = Foreign 1 ''EOF'', Prefixes = [], stack = [4, 5], frames = Some
             [\<lparr>Caller = 4, File = [], LineNumber = 0, FunctionName = [], Package = []\<rparr>,
              \<lparr>Caller = 5, File = [], LineNumber = 0, FunctionName = [], Package = []\<rparr>]\<rparr>],
            errorStrings = 0\<rparr> 0 = Inr pcs
        \<and> int (length pcs) \<le> 2
        \<and> StackFrames (\<lambda>pc. None)
            \<lparr>heap = [\<lparr>Err = Foreign 1 ''EOF'', Prefixes = [], stack = [4, 5], frames = Some
             [\<lparr>Caller = 4, File = [], LineNumber = 0, FunctionName = [], Package = []\<rparr>,
              \<lparr>Caller = 5, File = [], LineNumber = 0, FunctionName = [], Package = []\<rparr>]\<rparr>],
            errorStrings = 0\<rparr> 0 = Inr (fs, s3, looked)
        \<and> int (length fs) \<le> 2)"
proof -
  let ?s1 = "\<lparr>heap = [\<lparr>Err = Foreign 1 ''EOF'', Prefixes = [], stack = [4, 5], frames = None\<rparr>],
              errorStrings = 0\<rparr>"
  let ?s2 = "\<lparr>heap = [\<lparr>Err = Foreign 1 ''EOF'', Prefixes = [], stack = [4, 5], frames = Some
             [\<lparr>Caller = 4, File = [], LineNumber = 0, FunctionName = [], Package = []\<rparr>,
              \<lparr>Caller = 5, File = [], LineNumber = 0, FunctionName = [], Package = []\<rparr>]\<rparr>],
            errorStrings = 0\<rparr>"
  have "call ?s1 ?s2"
    using StackFrames_example by (rule call_StackFrames)
  then have c: "call\<^sup>*\<^sup>* ?s1 ?s2" by (rule r_into_rtranclp)
  have w: "Wrap 2 [1, 2, 3, 4, 5, 6] \<lparr>heap = [], errorStrings = 0\<rparr> (VErr (Foreign 1 ''EOF''))
      = Inr (0, ?s1)"
    by (rule Wrap_example)
  have v: "\<forall>q. VErr (Foreign 1 ''EOF'') \<noteq> VErr (Stackable q)"
    by simp
  from depth_bound[OF disjI1, OF w v c, of "\<lambda>pc. None"] w v c
  show ?thesis by simp
qed

text \<open>
  C7. A call of \<^verbatim>\<open>StackFrames()\<close> that returns \<open>fs\<close> leaves \<open>fs\<close> in the cache of the
  object. After any later calls of the exported functions, \<^verbatim>\<open>StackFrames()\<close> on the same
  object returns \<open>fs\<close> again, changes nothing and makes no symbol lookup, whatever the
  symbol table is by then. The call that found the cache empty resolved each captured
  address once, in order: its frames are \<^verbatim>\<open>NewStackFrame\<close> of each address, and its
  lookups are those of these calls; a call that found the cache filled made none.
\<close>

theorem StackFrames_memoized:
  assumes "StackFrames FuncForPC s p = Inr (fs, s1, looked)"
    and "call\<^sup>*\<^sup>* s1 s2"
  shows "frames (heap s1 ! p) = Some fs
    \<and> StackFrames FuncForPC' s2 p = Inr (fs, s2, [])
    \<and> (frames (heap s ! p) = None \<longrightarrow>
         fs = map (\<lambda>pc. fst (NewStackFrame FuncForPC pc)) (stack (heap s ! p))
         \<and> looked = concat (map (\<lambda>pc. snd (NewStackFrame FuncForPC pc)) (stack (heap s ! p))))
    \<and> (frames (heap s ! p) \<noteq> None \<longrightarrow> frames (heap s ! p) = Some fs \<and> looked = [] \<and> s1 = s)"
proof -
  from StackFrames_Inr[OF assms(1)] have p: "p < length (heap s)"
    and d: "(frames (heap s ! p) = Some fs \<and> s1 = s \<and> looked = []) \<or>
     (frames (heap s ! p) = None
      \<and> fs = map (\<lambda>pc. fst (NewStackFrame FuncForPC pc)) (stack (heap s ! p))
      \<and> looked = concat (map (\<lambda>pc. snd (NewStackFrame FuncForPC pc)) (stack (heap s ! p)))
      \<and> s1 = s\<lparr>heap := (heap s)[p := (heap s ! p)\<lparr>frames := Some fs\<rparr>]\<rparr>)"
    by simp_all
  from d p have s1: "p < length (heap s1)" "frames (heap s1 ! p) = Some fs"
    by auto
  from calls_old_object[OF assms(2) s1(1)] s1(2)
  have s2: "p < length (heap s2)" "frames (heap s2 ! p) = Some fs"
    by auto
  then have "StackFrames FuncForPC' s2 p = Inr (fs, s2, [])"
    by (simp add: StackFrames_live)
  with s1 d show ?thesis by auto
qed

theorem StackFrames_memoized_witness:
  "StackFrames (\<lambda>pc. None)
     \<lparr>heap = [\<lparr>Err = Foreign 1 ''EOF'', Prefixes = [], stack = [4, 5], frames = None\<rparr>],
       errorStrings = 0\<rparr> 0
   = Inr ([\<lparr>Caller = 4, File = [], LineNumber = 0, FunctionName = [], Package = []\<rparr>,
           \<lparr>Caller = 5, File = [], LineNumber = 0, FunctionName = [], Package = []\<rparr>],
          \<lparr>heap = [\<lparr>Err = Foreign 1 ''EOF'', Prefixes = [], stack = [4, 5], frames = Some
             [\<lparr>Caller = 4, File = [], LineNumber = 0, FunctionName = [], Package = []\<rparr>,
              \<lparr>Caller = 5, File = [], LineNumber = 0, FunctionName = [], Package = []\<rparr>]\<rparr>],
            errorStrings = 0\<rparr>,
          [4, 5])
   \<and> call\<^sup>*\<^sup>*
        \<lparr>heap = [\<lparr>Err = Foreign 1 ''EOF'', Prefixes = [], stack = [4, 5], frames = Some
             [\<lparr>Caller = 4, File = [], LineNumber = 0, FunctionName = [], Package = []\<rparr>,
              \<lparr>Caller = 5, File = [], LineNumber = 0, FunctionName = [], Package = []\<rparr>]\<rparr>],
            errorStrings = 0\<rparr>
        \<lparr>heap = [\<lparr>Err = Foreign 1 ''EOF'', Prefixes = [''load''], stack = [4, 5], frames = Some
             [\<lparr>Caller = 4, File = [], LineNumber = 0, FunctionName = [], Package = []\<rparr>,
              \<lparr>Caller = 5, File = [], LineNumber = 0, FunctionName = [], Package = []\<rparr>]\<rparr>],
            errorStrings = 0\<rparr>
   \<and> StackFrames (\<lambda>pc. Some \<lparr>func_Name = ''main.main'', func_FileLine = (\<lambda>pc. (''/src/main.go'', 7))\<rparr>)
        \<lparr>heap = [\<lparr>Err = Foreign 1 ''EOF'', Prefixes = [''load''], stack = [4, 5], frames = Some
             [\<lparr>Caller = 4, File = [], LineNumber = 0, FunctionName = [], Package = []\<rparr>,
              \<lparr>Caller = 5, File = [], LineNumber = 0, FunctionName = [], Package = []\<rparr>]\<rparr>],
            errorStrings = 0\<rparr> 0
      = Inr ([\<lparr>Caller = 4, File = [], LineNumber = 0, FunctionName = [], Package = []\<rparr>,
              \<lparr>Caller = 5, File = [], LineNumber = 0, FunctionName = [], Package = []\<rparr>],
             \<lparr>heap = [\<lparr>Err = Foreign 1 ''EOF'', Prefixes = [''load''], stack = [4, 5], frames = Some
               [\<lparr>Caller = 4, File = [], LineNumber = 0, FunctionName = [], Package = []\<rparr>,
                \<lparr>Caller = 5, File = [], LineNumber = 0, FunctionName = [], Package = []\<rparr>]\<rparr>],
              errorStrings = 0\<rparr>,
             [])"
proof -
  let ?fs = "[\<lparr>Caller = 4, File = [], LineNumber = 0, FunctionName = [], Package = []\<rparr>,
           \<lparr>Caller = 5, File = [], LineNumber = 0, FunctionName = [], Package = []\<rparr>]"
  let ?s2 = "\<lparr>heap = [\<lparr>Err = Foreign 1 ''EOF'', Prefixes = [], stack = [4, 5], frames = Some ?fs\<rparr>],
            errorStrings = 0\<rparr>"
  let ?s3 = "\<lparr>heap = [\<lparr>Err = Foreign 1 ''EOF'', Prefixes = [''load''], stack = [4, 5], frames = Some ?fs\<rparr>],
            errorStrings = 0\<rparr>"
  have "call ?s2 ?s3"
    using WrapPrefix_example by (rule call_WrapPrefix)
  then have c: "call\<^sup>*\<^sup>* ?s2 ?s3" by (rule r_into_rtranclp)
  from StackFrames_memoized[OF StackFrames_example c,
      of "\<lambda>pc. Some \<lparr>func_Name = ''main.main'', func_FileLine = (\<lambda>pc. (''/src/main.go'', 7))\<rparr>",
      THEN conjunct2, THEN conjunct1]
  have again: "StackFrames
      (\<lambda>pc. Some \<lparr>func_Name = ''main.main'', func_FileLine = (\<lambda>pc. (''/src/main.go'', 7))\<rparr>)
      ?s3 0 = Inr (?fs, ?s3, [])" .
  show ?thesis
    by (intro conjI StackFrames_example c again)
qed

text \<open>
  C9. When \<^verbatim>\<open>Error()\<close> returns \<open>msg\<close>, \<^verbatim>\<open>StackTrace()\<close> returns \<^verbatim>\<open>"ERROR: "\<close>, then \<open>msg\<close>,
  then a line break, then what \<^verbatim>\<open>Stack()\<close> returns; and \<^verbatim>\<open>Stack()\<close> returns the lines of
  the frames of \<^verbatim>\<open>StackFrames()\<close>, in their order, each followed by a line break. Frames
  resolved by this call stand in the order of the captured addresses.
\<close>

theorem StackTrace_text:
  assumes "Error s p = Some (Inr msg)"
  shows "\<exists>fs s' looked.
      StackFrames FuncForPC s p = Inr (fs, s', looked)
      \<and> Stack FuncForPC s p = Inr (concat (map (\<lambda>frame. String frame @ newline) fs), s', looked)
      \<and> StackTrace FuncForPC s p =
          Some (Inr (''ERROR: '' @ msg @ newline @ concat (map (\<lambda>frame. String frame @ newline) fs),
                     s', looked))
      \<and> (frames (heap s ! p) = None \<longrightarrow> map Caller fs = stack (heap s ! p))"
proof -
  from Error_Inr_live[OF assms] have p: "p < length (heap s)" .
  from StackFrames_returns[OF p] obtain fs s' looked
    where sf: "StackFrames FuncForPC s p = Inr (fs, s', looked)" by blast
  have st: "Stack FuncForPC s p = Inr (concat (map (\<lambda>frame. String frame @ newline) fs), s', looked)"
    by (simp add: Stack_def sf stack_loop_eq)
  have tr: "StackTrace FuncForPC s p =
          Some (Inr (''ERROR: '' @ msg @ newline @ concat (map (\<lambda>frame. String frame @ newline) fs),
                     s', looked))"
    by (simp add: StackTrace_def assms st)
  have order: "frames (heap s ! p) = None \<longrightarrow> map Caller fs = stack (heap s ! p)"
    using StackFrames_Inr[OF sf] by (auto simp: NewStackFrame_Caller o_def map_idI)
  show ?thesis
    by (rule exI[where x = fs], rule exI[where x = s'], rule exI[where x = looked])
       (simp add: sf st tr order)
qed

theorem StackTrace_text_witness:
  "Error \<lparr>heap = [\<lparr>Err = Foreign 1 ''EOF'', Prefixes = [''load''], stack = [4], frames = None\<rparr>],
            errorStrings = 0\<rparr> 0 = Some (Inr ''load: EOF'')
   \<and> (\<exists>s' looked. StackTrace
        (\<lambda>pc. Some \<lparr>func_Name = ''main.main'', func_FileLine = (\<lambda>pc. (''/go/src/app/main.go'', 7))\<rparr>)
        \<lparr>heap = [\<lparr>Err = Foreign 1 ''EOF'', Prefixes = [''load''], stack = [4], frames = None\<rparr>],
            errorStrings = 0\<rparr> 0
      = Some (Inr (''ERROR: load: EOF'' @ newline @ ''/app/main.go: main: line 7'' @ newline, s', looked)))"
proof -
  let ?s = "\<lparr>heap = [\<lparr>Err = Foreign 1 ''EOF'', Prefixes = [''load''], stack = [4], frames = None\<rparr>],
            errorStrings = 0\<rparr>"
  let ?F = "\<lambda>pc :: uintptr. Some \<lparr>func_Name = ''main.main'', func_FileLine = (\<lambda>pc. (''/go/src/app/main.go'', 7))\<rparr>"
  have e: "Error ?s 0 = Some (Inr ''load: EOF'')"
    by (simp add: Error_def error_Error_Stackable error_Error_other)
  have r: "RelativeFilePath ''/go/src/app/main.go'' = ''/app/main.go''"
    by code_simp
  have pn: "packageAndName \<lparr>func_Name = ''main.main'', func_FileLine = (\<lambda>pc. (''/go/src/app/main.go'', 7))\<rparr>
     = (''main'', ''main'')"
    by code_simp
  have d: "fmt_d 7 = ''7''"
    by code_simp
  have sf: "StackFrames ?F ?s 0 = Inr (fs, s', looked) \<Longrightarrow>
     fs = [\<lparr>Caller = 4, File = ''/go/src/app/main.go'', LineNumber = 7, FunctionName = ''main'', Package = ''main''\<rparr>]"
    for fs s' looked
    by (simp add: StackFrames_live NewStackFrame_def Func_def pn)
  from StackTrace_text[OF e, of ?F] sf e
  show ?thesis
    by (auto simp: String_def r d)
qed

text \<open>
  C10. \<^verbatim>\<open>WrapPrefix\<close> of a pointer to a live \<^verbatim>\<open>StackableError\<close> returns that pointer, and
  the new state is the old one with the prefix appended to the prefixes of that object:
  its cause, its captured addresses and its frames cache are as before, no object is
  allocated and no other object changes. Whoever holds the pointer sees the new prefix:
  if \<^verbatim>\<open>Error()\<close> returned \<open>m\<close> before, it now returns the prefix, \<^verbatim>\<open>": "\<close> and \<open>m\<close>.
\<close>

theorem WrapPrefix_in_place:
  "p < length (heap s) \<longrightarrow>
     (\<exists>s'. WrapPrefix MaxStackDepth goroutine s (VErr (Stackable p)) pfx = Inr (p, s')
        \<and> s' = s\<lparr>heap := (heap s)[p := (heap s ! p)\<lparr>Prefixes := Prefixes (heap s ! p) @ [pfx]\<rparr>]\<rparr>
        \<and> Prefixes (heap s' ! p) = Prefixes (heap s ! p) @ [pfx]
        \<and> Err (heap s' ! p) = Err (heap s ! p)
        \<and> stack (heap s' ! p) = stack (heap s ! p)
        \<and> frames (heap s' ! p) = frames (heap s ! p)
        \<and> length (heap s') = length (heap s)
        \<and> (\<forall>q. q \<noteq> p \<longrightarrow> heap s' ! q = heap s ! q)
        \<and> (\<forall>m. Error s p = Some (Inr m) \<longrightarrow> Error s' p = Some (Inr (pfx @ '': '' @ m))))"
  using WrapPrefix_Stackable[of p s MaxStackDepth goroutine pfx] Error_after_append[of p s _ pfx]
  by simp

theorem WrapPrefix_in_place_witness:
  "(0::nat) < length (heap \<lparr>heap = [\<lparr>Err = Foreign 1 ''EOF'', Prefixes = [''a''], stack = [4, 5],
        frames = None\<rparr>], errorStrings = 0\<rparr>)
   \<and> Error \<lparr>heap = [\<lparr>Err = Foreign 1 ''EOF'', Prefixes = [''a''], stack = [4, 5],
        frames = None\<rparr>], errorStrings = 0\<rparr> 0 = Some (Inr ''a: EOF'')
   \<and> WrapPrefix 50 [] \<lparr>heap = [\<lparr>Err = Foreign 1 ''EOF'', Prefixes = [''a''], stack = [4, 5],
        frames = None\<rparr>], errorStrings = 0\<rparr> (VErr (Stackable 0)) ''b''
      = Inr (0, \<lparr>heap = [\<lparr>Err = Foreign 1 ''EOF'', Prefixes = [''a'', ''b''], stack = [4, 5],
        frames = None\<rparr>], errorStrings = 0\<rparr>)
   \<and> Error \<lparr>heap = [\<lparr>Err = Foreign 1 ''EOF'', Prefixes = [''a'', ''b''], stack = [4, 5],
        frames = None\<rparr>], errorStrings = 0\<rparr> 0 = Some (Inr ''b: a: EOF'')"
proof -
  let ?s = "\<lparr>heap = [\<lparr>Err = Foreign 1 ''EOF'', Prefixes = [''a''], stack = [4, 5],
        frames = None\<rparr>], errorStrings = 0\<rparr>"
  have e: "Error ?s 0 = Some (Inr ''a: EOF'')"
    by (simp add: Error_def error_Error_Stackable error_Error_other)
  from WrapPrefix_in_place[of 0 ?s 50 "[]" "''b''"] e
  show ?thesis by simp
qed

end
